theory Spec2Isabelle
  imports Complex_Main
begin

section \<open>Python strings and lists\<close>

text \<open>
  Python \<open>str\<close> values are modelled as \<open>string\<close>. The functions below are the string
  and list primitives the extractor calls: \<open>sep.join(xs)\<close>, \<open>s.startswith(p)\<close>,
  \<open>s.endswith(p)\<close>, \<open>p in s\<close>, \<open>s.split(c)\<close>, \<open>xs[i:]\<close> and \<open>str(n)\<close>.
\<close>

fun join :: "string \<Rightarrow> string list \<Rightarrow> string" where
  "join sep [] = []"
| "join sep [x] = x"
| "join sep (x # y # ys) = x @ sep @ join sep (y # ys)"

definition startswith :: "string \<Rightarrow> string \<Rightarrow> bool" where
  "startswith s p = (take (length p) s = p)"

definition endswith :: "string \<Rightarrow> string \<Rightarrow> bool" where
  "endswith s suf = (length suf \<le> length s \<and> drop (length s - length suf) s = suf)"

text \<open>\<open>contains_str p s\<close> is Python's \<open>p in s\<close> on strings.\<close>

fun contains_str :: "string \<Rightarrow> string \<Rightarrow> bool" where
  "contains_str p [] = (p = [])"
| "contains_str p (c # cs) = (startswith (c # cs) p \<or> contains_str p cs)"

text \<open>\<open>s.split(sep)\<close> for a one-character separator: never empty, \<open>''''.split('.') = ['''']\<close>.\<close>

fun split_on :: "char \<Rightarrow> string \<Rightarrow> string list" where
  "split_on sep [] = [[]]"
| "split_on sep (c # cs) =
     (if c = sep then [] # split_on sep cs
      else (case split_on sep cs of [] \<Rightarrow> [[c]] | p # ps \<Rightarrow> (c # p) # ps))"

text \<open>\<open>xs[i:]\<close>: a negative start counts from the end and is clipped at the front.\<close>

definition slice_from :: "'a list \<Rightarrow> int \<Rightarrow> 'a list" where
  "slice_from xs i =
     (if i < 0 then drop (nat (int (length xs) + i)) xs else drop (nat i) xs)"

definition digit_char :: "nat \<Rightarrow> char" where
  "digit_char d = ''0123456789'' ! d"

fun str_nat :: "nat \<Rightarrow> string" where
  "str_nat n =
     (if n < 10 then [digit_char n] else str_nat (n div 10) @ [digit_char (n mod 10)])"

declare str_nat.simps [simp del]

definition str_int :: "int \<Rightarrow> string" where
  "str_int i = (if i < 0 then CHR ''-'' # str_nat (nat (- i)) else str_nat (nat i))"


section \<open>The syntax tree handed over by the parser\<close>

text \<open>
  The extractor reads a few attributes of javalang's nodes. A node on the path to a method
  is a class declaration (with its name), a class creator (with its body and position) or
  any other node. The body of a class creator is given by the number of its declarations,
  \<open>None\<close> when there is no body: Python's \<open>if node.body\<close> holds for a non-empty list only.
\<close>

datatype ast_node =
    ClassDeclaration string
  | ClassCreator "nat option" "int option"
  | OtherNode

text \<open>A type node is represented by its \<open>name\<close> attribute, \<open>None\<close> when it has none.\<close>

type_synonym type_node = "string option"

record formal_parameter =
  p_type :: type_node
  p_varargs :: bool

text \<open>
  \<open>node_position\<close> is \<open>node.position.line\<close>, \<open>None\<close> when \<open>node.position\<close> is \<open>None\<close>.
  \<open>node_modifiers\<close> is a Python set of strings.
\<close>

record method_declaration =
  node_name :: string
  node_parameters :: "formal_parameter list"
  node_position :: "int option"
  node_documentation :: "string option"
  node_modifiers :: "string set"
  node_return_type :: "type_node option"

text \<open>What \<open>parse_file\<close> reads of a parsed file: \<open>tree.package.name\<close>, the import paths and
  the (path, node) pairs of \<open>tree.filter(MethodDeclaration)\<close> in document order.\<close>

record compilation_unit =
  cu_package :: "string option"
  cu_imports :: "string list"
  cu_methods :: "(ast_node list \<times> method_declaration) list"

record file_context =
  ctx_rel_path :: string
  ctx_package_name :: string
  ctx_imports :: "string list"
  ctx_component :: string

text \<open>The dictionary appended to \<open>extracted_methods\<close>; \<open>m_id m\<close> is \<open>m['id']\<close>.\<close>

record extracted_method =
  m_id :: string
  m_content_hash :: string
  m_source :: string
  m_component :: string
  m_package :: string
  m_class_name :: string
  m_method_name :: string
  m_line_count :: nat
  m_visibility :: string
  m_return_type :: string
  m_method_code :: string
  m_javadoc_raw :: string
  m_internal_deps :: string
  m_external_libs :: string

text \<open>The exceptions that occur: two of the extractor, two that PostgreSQL reports (a
  command that touches a row twice, a negative \<open>LIMIT\<close>), and any other.\<close>

datatype exn =
    JavaSyntaxError
  | AttributeError
  | CardinalityViolation
  | InvalidRowCountInLimitClause
  | OtherException


section \<open>JavaExtractor: the helper methods\<close>

fun class_path_parts :: "ast_node list \<Rightarrow> string list" where
  "class_path_parts [] = []"
| "class_path_parts (ClassDeclaration n # path) = n # class_path_parts path"
| "class_path_parts (ClassCreator body pos # path) =
     (if (case body of None \<Rightarrow> False | Some k \<Rightarrow> k \<noteq> 0)
      then (''AnonL'' @ (case pos of None \<Rightarrow> ''unk'' | Some line \<Rightarrow> str_int line))
             # class_path_parts path
      else class_path_parts path)"
| "class_path_parts (OtherNode # path) = class_path_parts path"

definition get_nested_class_path :: "ast_node list \<Rightarrow> string" where
  "get_nested_class_path path =
     (let parts = class_path_parts path
      in if parts \<noteq> [] then join ''$'' parts else ''Unknown'')"

definition get_params_signature :: "method_declaration \<Rightarrow> string" where
  "get_params_signature node =
     join '','' (map (\<lambda>p. (case p_type p of None \<Rightarrow> ''unknown'' | Some t_name \<Rightarrow> t_name)
                           @ (if p_varargs p then ''...'' else ''''))
                   (node_parameters node))"

definition get_return_type :: "method_declaration \<Rightarrow> string" where
  "get_return_type node =
     (case node_return_type node of
        None \<Rightarrow> ''void''
      | Some t \<Rightarrow> (case t of None \<Rightarrow> ''unknown'' | Some n \<Rightarrow> n))"

text \<open>
  \<open>next((m for m in node.modifiers if m in modifiers), "package-private")\<close> walks a set.
  The order in which a Python set of strings is walked depends on the run (string hashing
  is seeded per process), so it is a parameter: \<open>iter\<close> lists the elements of a set in the
  order this run visits them.
\<close>

definition get_visibility :: "(string set \<Rightarrow> string list) \<Rightarrow> method_declaration \<Rightarrow> string" where
  "get_visibility iter node =
     (case filter (\<lambda>m. m \<in> set [''public'', ''private'', ''protected''])
                  (iter (node_modifiers node)) of
        [] \<Rightarrow> ''package-private''
      | m # _ \<Rightarrow> m)"

definition analyze_dependencies :: "string \<Rightarrow> string list \<Rightarrow> string list \<times> string list" where
  "analyze_dependencies package_name all_imports =
     (let parts = split_on CHR ''.'' package_name;
          prefix = (if length parts > 1 then join ''.'' (take 2 parts)
                    else (case parts of [] \<Rightarrow> [] | p # _ \<Rightarrow> p));
          internal = filter (\<lambda>i. startswith i prefix) all_imports;
          external = filter (\<lambda>i. \<not> startswith i prefix) all_imports
      in (internal, external))"

text \<open>The loop of \<open>_get_method_body\<close>, with its three variables as accumulators.\<close>

fun body_loop :: "string list \<Rightarrow> string list \<Rightarrow> int \<Rightarrow> bool \<Rightarrow> string list" where
  "body_loop [] body brace_count started = body"
| "body_loop (line # rest) body brace_count started =
     (let body' = body @ [line];
          brace_count' = brace_count
             + (int (count_list line CHR ''{'') - int (count_list line CHR ''}''));
          started' = (if CHR ''{'' \<in> set line then True else started)
      in if started' \<and> brace_count' \<le> 0 then body'
         else body_loop rest body' brace_count' started')"

definition get_method_body :: "string list \<Rightarrow> int \<Rightarrow> string \<times> nat" where
  "get_method_body lines start_line =
     (let body = body_loop (slice_from lines start_line) [] 0 False
      in (join [CHR 0x0A] body, length body))"

section \<open>JavaExtractor: identities within one file\<close>

text \<open>\<open>str\<close> of a number determines the number; the collision loop ends because of it.\<close>

lemma digit_range: "(a::nat) < 10 \<Longrightarrow> a \<in> {0, 1, 2, 3, 4, 5, 6, 7, 8, 9}"
  by auto

lemma digit_char_inj: "a < 10 \<Longrightarrow> b < 10 \<Longrightarrow> digit_char a = digit_char b \<Longrightarrow> a = b"
  by (drule digit_range, drule digit_range) (auto simp: digit_char_def)

lemma str_nat_nonempty: "str_nat n \<noteq> []"
  by (subst str_nat.simps) simp

lemma str_nat_inj: "str_nat m = str_nat n \<Longrightarrow> m = n"
proof (induction m arbitrary: n rule: str_nat.induct)
  case (1 m)
  show ?case
  proof (cases "m < 10")
    case True
    note small_m = this
    show ?thesis
    proof (cases "n < 10")
      case True
      with small_m "1.prems" show ?thesis
        by (simp add: str_nat.simps[of m] str_nat.simps[of n] digit_char_inj)
    next
      case False
      with small_m "1.prems" show ?thesis
        using str_nat_nonempty[of "n div 10"]
        by (simp add: str_nat.simps[of m] str_nat.simps[of n])
    qed
  next
    case False
    note big_m = this
    show ?thesis
    proof (cases "n < 10")
      case True
      with big_m "1.prems" show ?thesis
        using str_nat_nonempty[of "m div 10"]
        by (simp add: str_nat.simps[of m] str_nat.simps[of n])
    next
      case False
      with big_m "1.prems" have front: "str_nat (m div 10) = str_nat (n div 10)"
        and last_digit: "digit_char (m mod 10) = digit_char (n mod 10)"
        by (simp_all add: str_nat.simps[of m] str_nat.simps[of n])
      from "1.IH"[OF big_m front] have "m div 10 = n div 10" .
      moreover from last_digit have "m mod 10 = n mod 10"
        by (intro digit_char_inj) simp_all
      ultimately show ?thesis
        by (metis div_mult_mod_eq)
    qed
  qed
qed

lemma card_from_Suc_less:
  assumes "finite {k::nat. P k}" and "P c"
  shows "card {k. Suc c \<le> k \<and> P k} < card {k. c \<le> k \<and> P k}"
proof (rule psubset_card_mono)
  show "finite {k. c \<le> k \<and> P k}"
    using assms(1) by (rule rev_finite_subset) auto
  show "{k. Suc c \<le> k \<and> P k} \<subset> {k. c \<le> k \<and> P k}"
  proof (rule psubsetI)
    show "{k. Suc c \<le> k \<and> P k} \<subseteq> {k. c \<le> k \<and> P k}"
      by auto
    have "c \<in> {k. c \<le> k \<and> P k}" and "c \<notin> {k. Suc c \<le> k \<and> P k}"
      using assms(2) by simp_all
    then show "{k. Suc c \<le> k \<and> P k} \<noteq> {k. c \<le> k \<and> P k}"
      by blast
  qed
qed

lemma card_from_Suc_le:
  assumes "finite {k::nat. P k}"
  shows "card {k. Suc c \<le> k \<and> P k} \<le> card {k. c \<le> k \<and> P k}"
proof (rule card_mono)
  show "finite {k. c \<le> k \<and> P k}"
    using assms by (rule rev_finite_subset) auto
  show "{k. Suc c \<le> k \<and> P k} \<subseteq> {k. c \<le> k \<and> P k}"
    by auto
qed

lemma finite_issued_suffixes:
  "finite {k. base @ ''#sub_'' @ str_nat k \<in> set reg}"
proof -
  have "inj (\<lambda>k. base @ ''#sub_'' @ str_nat k)"
    by (rule injI) (simp add: str_nat_inj)
  from finite_vimageI[OF finite_set this, of reg] show ?thesis
    by (simp add: vimage_def)
qed

text \<open>
  The \<open>while final_sig in file_id_registry\<close> loop. The registry is a Python set that only
  grows and is only asked for membership; it is modelled by the list of the signatures
  added so far, latest first.
\<close>

function resolve_collision :: "string list \<Rightarrow> string \<Rightarrow> string \<Rightarrow> nat \<Rightarrow> string" where
  "resolve_collision file_id_registry base_sig final_sig counter =
     (if final_sig \<in> set file_id_registry
      then resolve_collision file_id_registry base_sig
             (base_sig @ ''#sub_'' @ str_nat counter) (counter + 1)
      else final_sig)"
  by pat_completeness auto
termination
proof (relation "measure (\<lambda>(reg, base, fin, c).
     card {k. c \<le> k \<and> base @ ''#sub_'' @ str_nat k \<in> set reg}
       + (if fin \<in> set reg then 1 else 0))", goal_cases)
  case 1
  show ?case by simp
next
  case (2 reg base fin c)
  show ?case
  proof (cases "base @ ''#sub_'' @ str_nat c \<in> set reg")
    case True
    from card_from_Suc_less[OF finite_issued_suffixes[of base reg] True] 2
    show ?thesis by simp
  next
    case False
    from card_from_Suc_le[OF finite_issued_suffixes[of base reg], of c] 2 False
    show ?thesis by simp
  qed
qed

declare resolve_collision.simps [simp del]

definition base_signature :: "file_context \<Rightarrow> ast_node list \<Rightarrow> method_declaration \<Rightarrow> string" where
  "base_signature ctx path node =
     ctx_rel_path ctx @ ''#'' @ get_nested_class_path path @ ''#'' @ node_name node
       @ ''('' @ get_params_signature node @ '')''"

text \<open>
  The body of the \<open>for path, node in tree.filter(...)\<close> loop. \<open>md5 s\<close> stands for
  \<open>hashlib.md5(s.encode()).hexdigest()\<close>. The loop carries \<open>extracted_methods\<close> and
  \<open>file_id_registry\<close>; reading \<open>node.position.line\<close> of a node without a position raises.
\<close>

fun extract_loop ::
  "(string \<Rightarrow> string) \<Rightarrow> (string set \<Rightarrow> string list) \<Rightarrow> string list \<Rightarrow> file_context
     \<Rightarrow> (ast_node list \<times> method_declaration) list
     \<Rightarrow> extracted_method list \<Rightarrow> string list
     \<Rightarrow> exn + (extracted_method list \<times> string list)" where
  "extract_loop md5 iter lines ctx [] extracted_methods file_id_registry =
     Inr (extracted_methods, file_id_registry)"
| "extract_loop md5 iter lines ctx ((path, node) # rest) extracted_methods file_id_registry =
     (let class_path = get_nested_class_path path;
          base_sig = base_signature ctx path node;
          final_sig = resolve_collision file_id_registry base_sig base_sig 1;
          file_id_registry' = final_sig # file_id_registry;
          method_id = md5 final_sig
      in case node_position node of
           None \<Rightarrow> Inl AttributeError
         | Some line \<Rightarrow>
             (let (method_code, line_count) = get_method_body lines (line - 1);
                  content_hash = md5 method_code;
                  (internal, external) =
                     analyze_dependencies (ctx_package_name ctx) (ctx_imports ctx)
              in extract_loop md5 iter lines ctx rest
                   (extracted_methods @
                     [\<lparr> m_id = method_id,
                        m_content_hash = content_hash,
                        m_source = ctx_rel_path ctx,
                        m_component = ctx_component ctx,
                        m_package = ctx_package_name ctx,
                        m_class_name = class_path,
                        m_method_name = node_name node,
                        m_line_count = line_count,
                        m_visibility = get_visibility iter node,
                        m_return_type = get_return_type node,
                        m_method_code = method_code,
                        m_javadoc_raw =
                          (case node_documentation node of None \<Rightarrow> [] | Some d \<Rightarrow> d),
                        m_internal_deps = join '', '' (take 10 internal),
                        m_external_libs = join '', '' (take 10 external) \<rparr>])
                   file_id_registry'))"

definition extract_methods_from_tree ::
  "(string \<Rightarrow> string) \<Rightarrow> (string set \<Rightarrow> string list)
     \<Rightarrow> (ast_node list \<times> method_declaration) list \<Rightarrow> string list \<Rightarrow> file_context
     \<Rightarrow> exn + extracted_method list" where
  "extract_methods_from_tree md5 iter tree lines ctx =
     map_sum id fst (extract_loop md5 iter lines ctx tree [] [])"

text \<open>The signatures the loop has registered when it ends, in the order of the methods.\<close>

definition issued_signatures ::
  "(string \<Rightarrow> string) \<Rightarrow> (string set \<Rightarrow> string list)
     \<Rightarrow> (ast_node list \<times> method_declaration) list \<Rightarrow> string list \<Rightarrow> file_context
     \<Rightarrow> exn + string list" where
  "issued_signatures md5 iter tree lines ctx =
     map_sum id (rev \<circ> snd) (extract_loop md5 iter lines ctx tree [] [])"


section \<open>JavaExtractor: files and directories\<close>

text \<open>
  What the extractor asks of its surroundings: the file system (\<open>os.path.exists\<close>,
  \<open>os.walk\<close> as the list of its (root, files) pairs, \<open>os.path.join\<close>, \<open>os.path.relpath\<close>,
  \<open>os.sep\<close>, reading a file as UTF-8 text), \<open>str.splitlines\<close> and the parser. A call that
  can raise returns the exception on the left.
\<close>

record environment =
  path_exists :: "string \<Rightarrow> bool"
  walk :: "string \<Rightarrow> (string \<times> string list) list"
  path_join :: "string \<Rightarrow> string \<Rightarrow> string"
  relpath :: "string \<Rightarrow> string \<Rightarrow> exn + string"
  sep :: char
  read_text :: "string \<Rightarrow> exn + string"
  splitlines :: "string \<Rightarrow> string list"
  javalang_parse :: "string \<Rightarrow> exn + compilation_unit"

definition parse_file ::
  "environment \<Rightarrow> (string \<Rightarrow> string) \<Rightarrow> (string set \<Rightarrow> string list)
     \<Rightarrow> string \<Rightarrow> string \<Rightarrow> extracted_method list" where
  "parse_file env md5 iter file_path repo_root =
     (case read_text env file_path of
        Inl e \<Rightarrow> []
      | Inr code \<Rightarrow>
          (case javalang_parse env code of
             Inl e \<Rightarrow> []
           | Inr tree \<Rightarrow>
               (case relpath env file_path repo_root of
                  Inl e \<Rightarrow> []
                | Inr rel_path \<Rightarrow>
                    (let lines = splitlines env code;
                         file_context =
                           \<lparr> ctx_rel_path = rel_path,
                              ctx_package_name =
                                (case cu_package tree of None \<Rightarrow> ''default'' | Some n \<Rightarrow> n),
                              ctx_imports = cu_imports tree,
                              ctx_component =
                                (case split_on (sep env) rel_path of [] \<Rightarrow> [] | c # _ \<Rightarrow> c) \<rparr>
                     in case extract_methods_from_tree md5 iter (cu_methods tree) lines
                               file_context of
                          Inl e \<Rightarrow> []
                        | Inr methods \<Rightarrow> methods))))"

text \<open>The inner and the outer loop of \<open>extract_from_directory\<close>.\<close>

fun scan_files ::
  "environment \<Rightarrow> (string \<Rightarrow> string) \<Rightarrow> (string set \<Rightarrow> string list)
     \<Rightarrow> string \<Rightarrow> string \<Rightarrow> string list \<Rightarrow> extracted_method list" where
  "scan_files env md5 iter directory root_dir [] = []"
| "scan_files env md5 iter directory root_dir (file # files) =
     (if endswith file ''.java'' \<and> \<not> contains_str ''module-info.java'' file
      then parse_file env md5 iter (path_join env root_dir file) directory
             @ scan_files env md5 iter directory root_dir files
      else scan_files env md5 iter directory root_dir files)"

fun scan_walk ::
  "environment \<Rightarrow> (string \<Rightarrow> string) \<Rightarrow> (string set \<Rightarrow> string list)
     \<Rightarrow> string \<Rightarrow> (string \<times> string list) list \<Rightarrow> extracted_method list" where
  "scan_walk env md5 iter directory [] = []"
| "scan_walk env md5 iter directory ((root_dir, files) # entries) =
     scan_files env md5 iter directory root_dir files
       @ scan_walk env md5 iter directory entries"

definition extract_from_directory ::
  "environment \<Rightarrow> (string \<Rightarrow> string) \<Rightarrow> (string set \<Rightarrow> string list)
     \<Rightarrow> string \<Rightarrow> extracted_method list" where
  "extract_from_directory env md5 iter directory =
     (if \<not> path_exists env directory then []
      else scan_walk env md5 iter directory (walk env directory))"

section \<open>PostgresDatastore: the table\<close>

text \<open>
  A \<open>jsonb\<close> value, and PostgreSQL's containment operator \<open>@>\<close> on it: objects contain
  objects key by key, arrays contain arrays element by element, scalars are compared by
  equality, and at the top level an array also contains a scalar that is one of its
  elements. The keys of a stored object are distinct.
\<close>

datatype jsonb =
    JNull
  | JBool bool
  | JNumber rat
  | JString string
  | JArray "jsonb list"
  | JObject "(string \<times> jsonb) list"

fun is_scalar :: "jsonb \<Rightarrow> bool" where
  "is_scalar (JArray _) = False"
| "is_scalar (JObject _) = False"
| "is_scalar _ = True"

fun deep_contains :: "jsonb \<Rightarrow> jsonb \<Rightarrow> bool" where
  "deep_contains (JObject l) (JObject r) =
     (\<forall>(k, v) \<in> set r.
        case map_of l k of
          None \<Rightarrow> False
        | Some lv \<Rightarrow> if is_scalar v then lv = v else deep_contains lv v)"
| "deep_contains (JArray l) (JArray r) =
     (\<forall>v \<in> set r.
        if is_scalar v then v \<in> set l else (\<exists>lv \<in> set l. deep_contains lv v))"
| "deep_contains _ _ = False"

definition jsonb_contains :: "jsonb \<Rightarrow> jsonb \<Rightarrow> bool" where
  "jsonb_contains val tmpl =
     (if is_scalar tmpl
      then (if is_scalar val then val = tmpl
            else (case val of JArray l \<Rightarrow> tmpl \<in> set l | _ \<Rightarrow> False))
      else if is_scalar val then False
      else deep_contains val tmpl)"

text \<open>
  A row of \<open>java_methods\<close>, with the columns the methods below read or write. The table
  declaration is not part of the sources. The columns that \<open>upsert_methods\<close> always writes
  hold values; \<open>ai_summary\<close> and \<open>metadata_json\<close> may be \<open>NULL\<close>; \<open>vector_tokens\<close> and
  \<open>total_cost\<close> are numbers. Timestamps are points on a line.
\<close>

type_synonym timestamp = int

record java_method =
  row_id :: string
  source_path :: string
  component :: string
  package_name :: string
  class_name :: string
  method_name :: string
  visibility :: string
  return_type :: string
  method_code :: string
  javadoc_raw :: string
  internal_deps :: string
  external_libs :: string
  content_hash :: string
  line_count :: nat
  status :: string
  vector_status :: string
  last_seen_at :: timestamp
  ai_summary :: "string option"
  metadata_json :: "jsonb option"
  vector_tokens :: int
  total_cost :: rat

text \<open>The table is the list of its rows, in the order a sequential scan meets them; \<open>id\<close>
  is its primary key.\<close>

type_synonym java_methods = "java_method list"

definition lookup :: "java_methods \<Rightarrow> string \<Rightarrow> java_method option" where
  "lookup tbl i = find (\<lambda>r. row_id r = i) tbl"

definition primary_key :: "java_methods \<Rightarrow> bool" where
  "primary_key tbl = distinct (map row_id tbl)"


section \<open>PostgresDatastore: upsert_methods\<close>

text \<open>
  The tuple built for one method: the columns of the \<open>INSERT\<close> list in order, with
  \<open>'new'\<close>, \<open>'pending'\<close> and \<open>current_now\<close> at the end. The columns the \<open>INSERT\<close> does not
  list take their defaults, which the row \<open>defaults\<close> holds.
\<close>

definition values_row :: "java_method \<Rightarrow> timestamp \<Rightarrow> extracted_method \<Rightarrow> java_method" where
  "values_row defaults current_now m =
     defaults\<lparr>
       row_id := m_id m,
       source_path := m_source m,
       component := m_component m,
       package_name := m_package m,
       class_name := m_class_name m,
       method_name := m_method_name m,
       visibility := m_visibility m,
       return_type := m_return_type m,
       method_code := m_method_code m,
       javadoc_raw := m_javadoc_raw m,
       internal_deps := m_internal_deps m,
       external_libs := m_external_libs m,
       content_hash := m_content_hash m,
       line_count := m_line_count m,
       status := ''new'',
       vector_status := ''pending'',
       last_seen_at := current_now \<rparr>"

text \<open>The \<open>DO UPDATE SET\<close> clause: \<open>existing\<close> is the row of \<open>java_methods\<close>, \<open>excluded\<close> the
  row proposed for insertion. Every right-hand side reads the row as it was.\<close>

definition on_conflict_update :: "java_method \<Rightarrow> java_method \<Rightarrow> java_method" where
  "on_conflict_update existing excluded =
     existing\<lparr>
       status := (if content_hash existing \<noteq> content_hash excluded then ''updated''
                  else status existing),
       vector_status := (if content_hash existing \<noteq> content_hash excluded then ''pending''
                         else vector_status existing),
       method_code := method_code excluded,
       javadoc_raw := javadoc_raw excluded,
       internal_deps := internal_deps excluded,
       external_libs := external_libs excluded,
       content_hash := content_hash excluded,
       line_count := line_count excluded,
       last_seen_at := last_seen_at excluded \<rparr>"

definition upsert_row :: "java_methods \<Rightarrow> java_method \<Rightarrow> java_methods" where
  "upsert_row tbl excluded =
     (if \<exists>r \<in> set tbl. row_id r = row_id excluded
      then map (\<lambda>r. if row_id r = row_id excluded then on_conflict_update r excluded else r) tbl
      else tbl @ [excluded])"

text \<open>One \<open>INSERT ... ON CONFLICT (id) DO UPDATE\<close> command. PostgreSQL refuses a command
  that proposes the same \<open>id\<close> twice, and then changes nothing.\<close>

definition insert_on_conflict :: "java_methods \<Rightarrow> java_method list \<Rightarrow> exn + java_methods" where
  "insert_on_conflict tbl proposed =
     (if distinct (map row_id proposed) then Inr (foldl upsert_row tbl proposed)
      else Inl CardinalityViolation)"

text \<open>
  \<open>psycopg2.extras.execute_values\<close> cuts the argument list into pages of \<open>page_size\<close>
  tuples and sends one command per page; an exception of a command ends it. The methods
  below call it without a page size, so the library's default applies; it is the
  parameter \<open>page_size\<close>, which is positive. The result is the number of commands sent to
  the server, and the table as the last command left it or the exception raised.
\<close>

fun pages :: "nat \<Rightarrow> 'a list \<Rightarrow> 'a list list" where
  "pages n xs = (if n = 0 \<or> xs = [] then [] else take n xs # pages n (drop n xs))"

declare pages.simps [simp del]

fun execute_pages ::
  "('t \<Rightarrow> 'a list \<Rightarrow> exn + 't) \<Rightarrow> 't \<Rightarrow> 'a list list \<Rightarrow> nat \<times> (exn + 't)" where
  "execute_pages command tbl [] = (0, Inr tbl)"
| "execute_pages command tbl (page # rest) =
     (case command tbl page of
        Inl e \<Rightarrow> (1, Inl e)
      | Inr tbl' \<Rightarrow>
          (let (sent, outcome) = execute_pages command tbl' rest
           in (Suc sent, outcome)))"

definition execute_values ::
  "nat \<Rightarrow> ('t \<Rightarrow> 'a list \<Rightarrow> exn + 't) \<Rightarrow> 't \<Rightarrow> 'a list \<Rightarrow> nat \<times> (exn + 't)" where
  "execute_values page_size command tbl argslist =
     execute_pages command tbl (pages page_size argslist)"

text \<open>\<open>upsert_methods\<close> commits after \<open>execute_values\<close>: the result on the right is the
  committed table. An exception leaves the method before the commit.\<close>

definition upsert_methods ::
  "nat \<Rightarrow> java_method \<Rightarrow> timestamp \<Rightarrow> java_methods \<Rightarrow> extracted_method list
     \<Rightarrow> exn + java_methods" where
  "upsert_methods page_size defaults current_now tbl methods =
     (let data = map (values_row defaults current_now) methods
      in snd (execute_values page_size insert_on_conflict tbl data))"


section \<open>PostgresDatastore: vector synchronisation\<close>







section \<open>PostgresDatastore: queries\<close>

text \<open>
  \<open>get_methods_to_vectorize\<close>. A \<open>NULL\<close> in \<open>metadata_json\<close> makes the third condition
  \<open>NULL\<close>, and the row is left out. Without \<open>ORDER BY\<close> the rows kept by \<open>LIMIT\<close> are the
  first that the scan meets.
\<close>

definition to_vectorize :: "java_method \<Rightarrow> bool" where
  "to_vectorize r =
     (vector_status r = ''pending'' \<and> status r = ''ai_processed'' \<and>
      (case metadata_json r of
         None \<Rightarrow> False
       | Some j \<Rightarrow> \<not> jsonb_contains j (JObject [(''is_getter_setter'', JBool True)])))"

definition vectorize_columns ::
  "java_method \<Rightarrow> string \<times> string \<times> string \<times> string \<times> string option \<times> jsonb option \<times> string" where
  "vectorize_columns r =
     (row_id r, method_name r, class_name r, return_type r, ai_summary r,
      metadata_json r, source_path r)"

definition get_methods_to_vectorize ::
  "java_methods \<Rightarrow> int
     \<Rightarrow> exn + (string \<times> string \<times> string \<times> string \<times> string option \<times> jsonb option \<times> string) list" where
  "get_methods_to_vectorize tbl limit =
     (if limit < 0 then Inl InvalidRowCountInLimitClause
      else Inr (map vectorize_columns (take (nat limit) (filter to_vectorize tbl))))"

text \<open>
  \<open>LIKE\<close> with the default escape character: \<open>%\<close> matches any run of characters, \<open>_\<close>
  any one character, a backslash makes the next character of the pattern literal. The
  arguments are the pattern and the text. A pattern that ends in a lone backslash is an
  error in PostgreSQL; \<open>get_stale_methods\<close> ends its pattern with \<open>%\<close>, so a backslash
  always has a next character there.
\<close>

fun like_match :: "string \<Rightarrow> string \<Rightarrow> bool" where
  "like_match [] s = (s = [])"
| "like_match (p # ps) s =
     (if p = CHR ''%'' then
        (like_match ps s \<or> (case s of [] \<Rightarrow> False | c # cs \<Rightarrow> like_match (p # ps) cs))
      else if p = CHR ''_'' then
        (case s of [] \<Rightarrow> False | c # cs \<Rightarrow> like_match ps cs)
      else if p = CHR 0x5C then
        (case ps of
           [] \<Rightarrow> False
         | q # qs \<Rightarrow> (case s of [] \<Rightarrow> False | c # cs \<Rightarrow> c = q \<and> like_match qs cs))
      else (case s of [] \<Rightarrow> False | c # cs \<Rightarrow> c = p \<and> like_match ps cs))"

definition get_stale_methods :: "java_methods \<Rightarrow> string \<Rightarrow> timestamp \<Rightarrow> string list" where
  "get_stale_methods tbl repo_path_prefix scan_start_time =
     map row_id
       (filter (\<lambda>r. like_match (repo_path_prefix @ ''%'') (source_path r)
                     \<and> last_seen_at r < scan_start_time) tbl)"

section \<open>The stop condition of the body-bounding routine, as specified\<close>

text \<open>
  The running balance after a run of lines is the number of opening braces in them minus
  the number of closing ones. The routine is specified to stop after the first line at
  which an opening brace has been seen and the balance is zero or below; \<open>stops_after ls k\<close>
  says that this holds once the lines \<open>ls ! 0\<close>, ..., \<open>ls ! k\<close> have been read.
\<close>

definition brace_delta :: "string \<Rightarrow> int" where
  "brace_delta line = int (count_list line CHR ''{'') - int (count_list line CHR ''}'')"

definition balance :: "string list \<Rightarrow> int" where
  "balance ls = sum_list (map brace_delta ls)"

definition opened :: "string list \<Rightarrow> bool" where
  "opened ls = list_ex (\<lambda>l. CHR ''{'' \<in> set l) ls"

definition stops_after :: "string list \<Rightarrow> nat \<Rightarrow> bool" where
  "stops_after ls k = (opened (take (Suc k) ls) \<and> balance (take (Suc k) ls) \<le> 0)"


section \<open>Enclosing classes, as specified\<close>

text \<open>
  \<open>no_named_class path\<close>: no class declaration encloses the method. \<open>no_class_body path\<close>:
  neither a class declaration nor the body of an anonymous class encloses it.
\<close>

fun no_named_class :: "ast_node list \<Rightarrow> bool" where
  "no_named_class [] = True"
| "no_named_class (ClassDeclaration n # path) = False"
| "no_named_class (ClassCreator body pos # path) = no_named_class path"
| "no_named_class (OtherNode # path) = no_named_class path"

fun no_class_body :: "ast_node list \<Rightarrow> bool" where
  "no_class_body [] = True"
| "no_class_body (ClassDeclaration n # path) = False"
| "no_class_body (ClassCreator body pos # path) =
     ((case body of None \<Rightarrow> True | Some k \<Rightarrow> k = 0) \<and> no_class_body path)"
| "no_class_body (OtherNode # path) = no_class_body path"


section \<open>A small file, for the examples\<close>

text \<open>An interface with two methods of the same name and parameters; neither has an
  enclosing class.\<close>

definition example_lines :: "string list" where
  "example_lines =
     [''interface Job {'',
      ''  default void run() {'',
      ''    go();'',
      ''  }'',
      ''  default void run() { }'',
      ''}'']"

definition example_method :: "string \<Rightarrow> int \<Rightarrow> method_declaration" where
  "example_method n line =
     \<lparr> node_name = n, node_parameters = [], node_position = Some line,
       node_documentation = None, node_modifiers = {''default''},
       node_return_type = None \<rparr>"

definition example_tree :: "(ast_node list \<times> method_declaration) list" where
  "example_tree =
     [([OtherNode, OtherNode], example_method ''run'' 2),
      ([OtherNode, OtherNode], example_method ''run'' 5)]"

definition example_ctx :: file_context where
  "example_ctx =
     \<lparr> ctx_rel_path = ''app/Job.java'', ctx_package_name = ''com.acme.app'',
       ctx_imports = [''com.acme.util.Clock'', ''com.acmetools.Log'', ''java.util.List''],
       ctx_component = ''app'' \<rparr>"


section \<open>Dependency classification, as specified\<close>

text \<open>
  \<open>shares_two_segments pkg imp\<close>: the import and the package agree on their first two
  dot-separated segments. \<open>dependency_prefix pkg\<close>: the first two segments of the package
  joined by a dot, the package name itself when it has a single segment.
\<close>

definition dependency_prefix :: "string \<Rightarrow> string" where
  "dependency_prefix pkg =
     (case split_on CHR ''.'' pkg of
        a # b # _ \<Rightarrow> a @ ''.'' @ b
      | _ \<Rightarrow> pkg)"

definition shares_two_segments :: "string \<Rightarrow> string \<Rightarrow> bool" where
  "shares_two_segments pkg imp =
     (take 2 (split_on CHR ''.'' imp) = take 2 (split_on CHR ''.'' pkg))"


section \<open>A small directory, for the examples\<close>

text \<open>A repository with one directory of four files: a Java file the parser refuses, a
  Java file it accepts, a module descriptor and a text file.\<close>

definition example_unit :: compilation_unit where
  "example_unit =
     \<lparr> cu_package = Some ''com.acme.app'',
       cu_imports = [''com.acme.util.Clock'', ''java.util.List''],
       cu_methods = example_tree \<rparr>"

definition example_env :: environment where
  "example_env =
     \<lparr> path_exists = (\<lambda>d. d = ''repo''),
       walk = (\<lambda>d. [(''repo/app'',
                       [''Broken.java'', ''Job.java'', ''module-info.java'', ''README.md''])]),
       path_join = (\<lambda>a b. a @ ''/'' @ b),
       relpath = (\<lambda>f r. Inr (drop (length r + 1) f)),
       sep = CHR ''/'',
       read_text = (\<lambda>f. if f = ''repo/app/Job.java'' then Inr ''job'' else Inr ''broken''),
       splitlines = (\<lambda>code. example_lines),
       javalang_parse = (\<lambda>code. if code = ''job'' then Inr example_unit
                                  else Inl JavaSyntaxError) \<rparr>"


section \<open>A small table, for the examples\<close>

text \<open>A row that is enriched and synchronised, and the tuple of a later scan that finds
  the same method with another body.\<close>

definition example_row :: java_method where
  "example_row =
     \<lparr> row_id = ''a'', source_path = ''app/Job.java'', component = ''app'',
       package_name = ''com.acme.app'', class_name = ''Job'', method_name = ''run'',
       visibility = ''public'', return_type = ''void'',
       method_code = ''void run() { }'', javadoc_raw = [],
       internal_deps = [], external_libs = [], content_hash = ''H1'', line_count = 1,
       status = ''ai_processed'', vector_status = ''synced'', last_seen_at = 1,
       ai_summary = Some ''Runs the job.'',
       metadata_json = Some (JObject [(''is_getter_setter'', JBool False)]),
       vector_tokens = 5, total_cost = 1 / 4 \<rparr>"

definition example_method_tuple :: extracted_method where
  "example_method_tuple =
     \<lparr> m_id = ''a'', m_content_hash = ''H2'', m_source = ''app/Job.java'',
       m_component = ''app'', m_package = ''com.acme.app'', m_class_name = ''Job'',
       m_method_name = ''run'', m_line_count = 3, m_visibility = ''public'',
       m_return_type = ''void'', m_method_code = ''void run() { go(); }'',
       m_javadoc_raw = [], m_internal_deps = [], m_external_libs = [] \<rparr>"


section \<open>The boilerplate flag, as specified\<close>

text \<open>The enrichment payload flags a record as boilerplate when it is a JSON object whose
  key \<open>is_getter_setter\<close> holds the JSON value \<open>true\<close>.\<close>

definition flagged_boilerplate :: "java_method \<Rightarrow> bool" where
  "flagged_boilerplate r =
     (case metadata_json r of
        Some (JObject kvs) \<Rightarrow> map_of kvs ''is_getter_setter'' = Some (JBool True)
      | _ \<Rightarrow> False)"

text \<open>A table of four rows: one ready for vectorisation, one flagged as boilerplate, one
  not enriched since its last change, one synchronised already.\<close>

definition example_table :: java_methods where
  "example_table =
     [example_row\<lparr> vector_status := ''pending'' \<rparr>,
      example_row\<lparr> row_id := ''b'', vector_status := ''pending'',
         metadata_json := Some (JObject [(''logic_intent'', JString ''Standard field access.''),
                                         (''is_getter_setter'', JBool True)]) \<rparr>,
      example_row\<lparr> row_id := ''c'', vector_status := ''pending'', status := ''updated'' \<rparr>,
      example_row\<lparr> row_id := ''d'' \<rparr>]"


chapter \<open>Properties\<close>

section \<open>The body-bounding routine\<close>

lemma balance_snoc: "balance (seen @ [l]) = balance seen + brace_delta l"
  by (simp add: balance_def)

lemma opened_snoc: "opened (seen @ [l]) = (opened seen \<or> CHR ''{'' \<in> set l)"
  by (auto simp: opened_def list_ex_iff)

text \<open>One round of the loop, when its variables hold what the lines read so far give.\<close>

lemma body_loop_step:
  "body_loop (l # rest) seen (balance seen) (opened seen) =
     (if opened (seen @ [l]) \<and> balance (seen @ [l]) \<le> 0 then seen @ [l]
      else body_loop rest (seen @ [l]) (balance (seen @ [l])) (opened (seen @ [l])))"
  by (auto simp: balance_snoc opened_snoc brace_delta_def Let_def)

lemma stops_after_next:
  "stops_after (seen @ l # rest) (length seen)
     = (opened (seen @ [l]) \<and> balance (seen @ [l]) \<le> 0)"
  by (simp add: stops_after_def)

lemma body_loop_stop:
  "k < length rest \<Longrightarrow> stops_after (seen @ rest) (length seen + k) \<Longrightarrow>
   (\<forall>j<k. \<not> stops_after (seen @ rest) (length seen + j)) \<Longrightarrow>
   body_loop rest seen (balance seen) (opened seen) = seen @ take (Suc k) rest"
proof (induction rest arbitrary: seen k)
  case Nil
  then show ?case by simp
next
  case (Cons l rest)
  show ?case
  proof (cases k)
    case 0
    with Cons.prems(2) have "opened (seen @ [l]) \<and> balance (seen @ [l]) \<le> 0"
      by (simp add: stops_after_next)
    with 0 show ?thesis
      by (simp only: body_loop_step) simp
  next
    case (Suc k')
    with Cons.prems(3) have "\<not> stops_after (seen @ l # rest) (length seen + 0)"
      by blast
    then have goes_on: "\<not> (opened (seen @ [l]) \<and> balance (seen @ [l]) \<le> 0)"
      by (simp add: stops_after_next)
    have "body_loop rest (seen @ [l]) (balance (seen @ [l])) (opened (seen @ [l]))
            = (seen @ [l]) @ take (Suc k') rest"
    proof (rule Cons.IH)
      show "k' < length rest" using Cons.prems(1) Suc by simp
      show "stops_after ((seen @ [l]) @ rest) (length (seen @ [l]) + k')"
        using Cons.prems(2) Suc by simp
      show "\<forall>j<k'. \<not> stops_after ((seen @ [l]) @ rest) (length (seen @ [l]) + j)"
      proof (intro allI impI)
        fix j assume "j < k'"
        then have "Suc j < k" using Suc by simp
        with Cons.prems(3) have "\<not> stops_after (seen @ l # rest) (length seen + Suc j)"
          by blast
        then show "\<not> stops_after ((seen @ [l]) @ rest) (length (seen @ [l]) + j)"
          by simp
      qed
    qed
    with goes_on Suc show ?thesis
      by (simp only: body_loop_step) simp
  qed
qed

lemma body_loop_no_stop:
  "(\<forall>j<length rest. \<not> stops_after (seen @ rest) (length seen + j)) \<Longrightarrow>
   body_loop rest seen (balance seen) (opened seen) = seen @ rest"
proof (induction rest arbitrary: seen)
  case Nil
  then show ?case by simp
next
  case (Cons l rest)
  from Cons.prems have "\<not> stops_after (seen @ l # rest) (length seen + 0)"
    by (metis length_greater_0_conv list.distinct(1))
  then have goes_on: "\<not> (opened (seen @ [l]) \<and> balance (seen @ [l]) \<le> 0)"
    by (simp add: stops_after_next)
  have "body_loop rest (seen @ [l]) (balance (seen @ [l])) (opened (seen @ [l]))
            = (seen @ [l]) @ rest"
  proof (rule Cons.IH, intro allI impI)
    fix j assume "j < length rest"
    then have "Suc j < length (l # rest)" by simp
    with Cons.prems have "\<not> stops_after (seen @ l # rest) (length seen + Suc j)"
      by blast
    then show "\<not> stops_after ((seen @ [l]) @ rest) (length (seen @ [l]) + j)"
      by simp
  qed
  with goes_on show ?case
    by (simp only: body_loop_step) simp
qed

lemma body_loop_start:
  "body_loop ls [] 0 False = body_loop ls [] (balance []) (opened [])"
  by (simp add: balance_def opened_def)

text \<open>
  C4. Started at the declaration line, \<open>_get_method_body\<close> returns the lines up to and
  including the first line after which an opening brace has been seen and the running
  balance of braces is zero or below, joined by newlines, together with their number; when
  no line is such a line, it returns all the lines to the end of the file. A method that
  opens with \<open>foo() {\<close> and whose balance is back at zero on its third line therefore
  yields exactly these three lines.
\<close>

theorem get_method_body_stop_condition:
  "(k < length (slice_from lines start_line) \<and>
    stops_after (slice_from lines start_line) k \<and>
    (\<forall>j<k. \<not> stops_after (slice_from lines start_line) j)
      \<longrightarrow> get_method_body lines start_line =
            (join [CHR 0x0A] (take (Suc k) (slice_from lines start_line)), Suc k))
   \<and> ((\<forall>j<length (slice_from lines start_line).
          \<not> stops_after (slice_from lines start_line) j)
      \<longrightarrow> get_method_body lines start_line =
            (join [CHR 0x0A] (slice_from lines start_line),
             length (slice_from lines start_line)))"
proof (intro conjI impI)
  assume first_stop: "k < length (slice_from lines start_line) \<and>
    stops_after (slice_from lines start_line) k \<and>
    (\<forall>j<k. \<not> stops_after (slice_from lines start_line) j)"
  then have "body_loop (slice_from lines start_line) [] (balance []) (opened [])
               = [] @ take (Suc k) (slice_from lines start_line)"
    by (intro body_loop_stop) simp_all
  with first_stop show "get_method_body lines start_line =
            (join [CHR 0x0A] (take (Suc k) (slice_from lines start_line)), Suc k)"
    by (simp add: get_method_body_def body_loop_start Let_def min_def)
next
  assume "\<forall>j<length (slice_from lines start_line).
            \<not> stops_after (slice_from lines start_line) j"
  then have "body_loop (slice_from lines start_line) [] (balance []) (opened [])
               = [] @ slice_from lines start_line"
    by (intro body_loop_no_stop) simp_all
  then show "get_method_body lines start_line =
            (join [CHR 0x0A] (slice_from lines start_line),
             length (slice_from lines start_line))"
    by (simp add: get_method_body_def body_loop_start Let_def)
qed

theorem get_method_body_stop_condition_witness:
  "get_method_body [''foo() {'', ''  bar();'', ''}'', ''baz() {'', ''}''] 0
     = (''foo() {'' @ [CHR 0x0A] @ ''  bar();'' @ [CHR 0x0A] @ ''}'', 3)"
proof -
  let ?lines = "[''foo() {'', ''  bar();'', ''}'', ''baz() {'', ''}'']"
  have whole: "slice_from ?lines 0 = ?lines"
    by (simp add: slice_from_def)
  have "2 < length (slice_from ?lines 0) \<and> stops_after (slice_from ?lines 0) 2 \<and>
        (\<forall>j<2. \<not> stops_after (slice_from ?lines 0) j)"
    unfolding whole
    by (simp add: stops_after_def opened_def balance_def brace_delta_def
          numeral_2_eq_2 All_less_Suc)
  with get_method_body_stop_condition[of 2 ?lines 0]
  have "get_method_body ?lines 0
          = (join [CHR 0x0A] (take (Suc 2) (slice_from ?lines 0)), Suc 2)"
    by blast
  then show ?thesis
    by (simp add: whole)
qed

section \<open>The collision loop and the records of one file\<close>

lemma resolve_collision_fresh: "resolve_collision reg base fin c \<notin> set reg"
  by (induction reg base fin c rule: resolve_collision.induct)
     (subst resolve_collision.simps, simp)

lemma resolve_collision_unused: "fin \<notin> set reg \<Longrightarrow> resolve_collision reg base fin c = fin"
  by (subst resolve_collision.simps) simp

lemma resolve_collision_suffix:
  "fin \<in> set reg \<Longrightarrow>
   \<exists>k\<ge>c. resolve_collision reg base fin c = base @ ''#sub_'' @ str_nat k \<and>
          (\<forall>j. c \<le> j \<and> j < k \<longrightarrow> base @ ''#sub_'' @ str_nat j \<in> set reg)"
proof (induction reg base fin c rule: resolve_collision.induct)
  case (1 reg base fin c)
  have unfold: "resolve_collision reg base fin c
      = resolve_collision reg base (base @ ''#sub_'' @ str_nat c) (c + 1)"
    using "1.prems" by (subst resolve_collision.simps) simp
  show ?case
  proof (cases "base @ ''#sub_'' @ str_nat c \<in> set reg")
    case False
    then have "resolve_collision reg base fin c = base @ ''#sub_'' @ str_nat c"
      unfolding unfold by (rule resolve_collision_unused)
    then show ?thesis by auto
  next
    case True
    from "1.IH"[OF "1.prems" True] obtain k where k: "c + 1 \<le> k"
      "resolve_collision reg base (base @ ''#sub_'' @ str_nat c) (c + 1)
          = base @ ''#sub_'' @ str_nat k"
      "\<forall>j. c + 1 \<le> j \<and> j < k \<longrightarrow> base @ ''#sub_'' @ str_nat j \<in> set reg"
      by blast
    have "\<forall>j. c \<le> j \<and> j < k \<longrightarrow> base @ ''#sub_'' @ str_nat j \<in> set reg"
    proof (intro allI impI)
      fix j assume "c \<le> j \<and> j < k"
      then consider "j = c" | "c + 1 \<le> j \<and> j < k" by linarith
      then show "base @ ''#sub_'' @ str_nat j \<in> set reg"
        using True k(3) by cases auto
    qed
    with k(1,2) unfold show ?thesis
      by (intro exI[of _ k]) simp
  qed
qed

lemma extract_loop_Cons_Inr:
  assumes "extract_loop md5 iter lines ctx ((path, node) # rest) acc reg = Inr out"
  obtains line r where "node_position node = Some line"
    and "extract_loop md5 iter lines ctx rest (acc @ [r])
           (resolve_collision reg (base_signature ctx path node)
              (base_signature ctx path node) 1 # reg) = Inr out"
    and "m_id r = md5 (resolve_collision reg (base_signature ctx path node)
              (base_signature ctx path node) 1)"
    and "(m_method_code r, m_line_count r) = get_method_body lines (line - 1)"
    and "m_content_hash r = md5 (m_method_code r)"
    and "m_internal_deps r = join '', ''
           (take 10 (fst (analyze_dependencies (ctx_package_name ctx) (ctx_imports ctx))))"
    and "m_external_libs r = join '', ''
           (take 10 (snd (analyze_dependencies (ctx_package_name ctx) (ctx_imports ctx))))"
  using assms
  by (auto simp: Let_def split: option.splits prod.splits)

lemma extract_loop_registry:
  "extract_loop md5 iter lines ctx tree acc reg = Inr (recs, reg') \<Longrightarrow>
   \<exists>new sigs. recs = acc @ new \<and> reg' = rev sigs @ reg \<and>
     length new = length tree \<and> length sigs = length tree \<and>
     map m_id new = map md5 sigs \<and>
     (\<forall>i<length tree. sigs ! i =
        resolve_collision (rev (take i sigs) @ reg)
          (base_signature ctx (fst (tree ! i)) (snd (tree ! i)))
          (base_signature ctx (fst (tree ! i)) (snd (tree ! i))) 1)"
proof (induction tree arbitrary: acc reg)
  case Nil
  then show ?case by simp
next
  case (Cons pn rest)
  obtain path node where pn: "pn = (path, node)" by (cases pn)
  let ?sig = "resolve_collision reg (base_signature ctx path node)
              (base_signature ctx path node) 1"
  from Cons.prems[unfolded pn] obtain line r where
    step: "extract_loop md5 iter lines ctx rest (acc @ [r]) (?sig # reg) = Inr (recs, reg')"
    and rid: "m_id r = md5 ?sig"
    by (rule extract_loop_Cons_Inr)
  from Cons.IH[OF step] obtain new sigs where ih:
    "recs = (acc @ [r]) @ new" "reg' = rev sigs @ ?sig # reg"
    "length new = length rest" "length sigs = length rest"
    "map m_id new = map md5 sigs"
    "\<forall>i<length rest. sigs ! i =
        resolve_collision (rev (take i sigs) @ ?sig # reg)
          (base_signature ctx (fst (rest ! i)) (snd (rest ! i)))
          (base_signature ctx (fst (rest ! i)) (snd (rest ! i))) 1"
    by blast
  have each: "\<forall>i<length (pn # rest). (?sig # sigs) ! i =
        resolve_collision (rev (take i (?sig # sigs)) @ reg)
          (base_signature ctx (fst ((pn # rest) ! i)) (snd ((pn # rest) ! i)))
          (base_signature ctx (fst ((pn # rest) ! i)) (snd ((pn # rest) ! i))) 1"
  proof (intro allI impI)
    fix i assume "i < length (pn # rest)"
    then show "(?sig # sigs) ! i =
        resolve_collision (rev (take i (?sig # sigs)) @ reg)
          (base_signature ctx (fst ((pn # rest) ! i)) (snd ((pn # rest) ! i)))
          (base_signature ctx (fst ((pn # rest) ! i)) (snd ((pn # rest) ! i))) 1"
      using ih(6) by (cases i) (simp_all add: pn)
  qed
  show ?case
    apply (rule exI[of _ "r # new"], rule exI[of _ "?sig # sigs"])
    using ih(1-5) rid each by simp
qed

lemma issued_distinct:
  assumes "\<forall>i<length sigs. sigs ! i \<notin> set (take i sigs)"
  shows "distinct sigs"
  using assms
proof (induction sigs rule: rev_induct)
  case Nil
  then show ?case by simp
next
  case (snoc x xs)
  have "\<forall>i<length xs. xs ! i \<notin> set (take i xs)"
  proof (intro allI impI)
    fix i assume i: "i < length xs"
    with snoc.prems have "(xs @ [x]) ! i \<notin> set (take i (xs @ [x]))" by simp
    with i show "xs ! i \<notin> set (take i xs)" by (simp add: nth_append)
  qed
  then have "distinct xs" by (rule snoc.IH)
  moreover from snoc.prems[rule_format, of "length xs"]
  have "(xs @ [x]) ! length xs \<notin> set (take (length xs) (xs @ [x]))"
    by simp
  then have "x \<notin> set xs" by simp
  ultimately show ?case by simp
qed


lemma extract_loop_records:
  "extract_loop md5 iter lines ctx tree acc reg = Inr (recs, reg') \<Longrightarrow>
   \<exists>new. recs = acc @ new \<and>
     list_all2 (\<lambda>pn r. \<exists>line. node_position (snd pn) = Some line \<and>
        (m_method_code r, m_line_count r) = get_method_body lines (line - 1) \<and>
        m_content_hash r = md5 (m_method_code r) \<and>
        m_internal_deps r = join '', ''
           (take 10 (fst (analyze_dependencies (ctx_package_name ctx) (ctx_imports ctx)))) \<and>
        m_external_libs r = join '', ''
           (take 10 (snd (analyze_dependencies (ctx_package_name ctx) (ctx_imports ctx)))))
       tree new"
proof (induction tree arbitrary: acc reg)
  case Nil
  then show ?case by simp
next
  case (Cons pn rest)
  obtain path node where pn: "pn = (path, node)" by (cases pn)
  let ?sig = "resolve_collision reg (base_signature ctx path node)
              (base_signature ctx path node) 1"
  from Cons.prems[unfolded pn] obtain line r where
    pos: "node_position node = Some line"
    and step: "extract_loop md5 iter lines ctx rest (acc @ [r]) (?sig # reg) = Inr (recs, reg')"
    and body: "(m_method_code r, m_line_count r) = get_method_body lines (line - 1)"
    and hash: "m_content_hash r = md5 (m_method_code r)"
    and deps: "m_internal_deps r = join '', ''
           (take 10 (fst (analyze_dependencies (ctx_package_name ctx) (ctx_imports ctx))))"
       "m_external_libs r = join '', ''
           (take 10 (snd (analyze_dependencies (ctx_package_name ctx) (ctx_imports ctx))))"
    by (rule extract_loop_Cons_Inr)
  from Cons.IH[OF step] obtain new where new: "recs = (acc @ [r]) @ new"
    "list_all2 (\<lambda>pn r. \<exists>line. node_position (snd pn) = Some line \<and>
        (m_method_code r, m_line_count r) = get_method_body lines (line - 1) \<and>
        m_content_hash r = md5 (m_method_code r) \<and>
        m_internal_deps r = join '', ''
           (take 10 (fst (analyze_dependencies (ctx_package_name ctx) (ctx_imports ctx)))) \<and>
        m_external_libs r = join '', ''
           (take 10 (snd (analyze_dependencies (ctx_package_name ctx) (ctx_imports ctx)))))
       rest new"
    by blast
  show ?case
    apply (rule exI[of _ "r # new"])
    using new pos body hash deps by (simp add: pn)
qed

lemma body_loop_prefix:
  "\<exists>n\<le>length rest. body_loop rest seen bc st = seen @ take n rest \<and> (rest \<noteq> [] \<longrightarrow> 1 \<le> n)"
proof (induction rest arbitrary: seen bc st)
  case Nil
  then show ?case by simp
next
  case (Cons l rest)
  let ?bc = "bc + (int (count_list l CHR ''{'') - int (count_list l CHR ''}''))"
  let ?st = "(if CHR ''{'' \<in> set l then True else st)"
  show ?case
  proof (cases "?st \<and> ?bc \<le> 0")
    case True
    then have "body_loop (l # rest) seen bc st = seen @ take 1 (l # rest)"
      by (simp add: Let_def)
    then show ?thesis
      by (intro exI[of _ 1]) simp
  next
    case False
    from Cons.IH[of "seen @ [l]" ?bc ?st] obtain n where n: "n \<le> length rest"
      "body_loop rest (seen @ [l]) ?bc ?st = (seen @ [l]) @ take n rest"
      by blast
    from False have "body_loop (l # rest) seen bc st = body_loop rest (seen @ [l]) ?bc ?st"
      by (auto simp: Let_def)
    with n(2) have "body_loop (l # rest) seen bc st = seen @ take (Suc n) (l # rest)"
      by simp
    with n(1) show ?thesis
      by (intro exI[of _ "Suc n"]) simp
  qed
qed

lemma get_method_body_prefix:
  "\<exists>n\<le>length (slice_from lines s).
     get_method_body lines s = (join [CHR 0x0A] (take n (slice_from lines s)), n) \<and>
     (slice_from lines s \<noteq> [] \<longrightarrow> 1 \<le> n)"
proof -
  from body_loop_prefix[of "slice_from lines s" "[]" 0 False]
  obtain n where n: "n \<le> length (slice_from lines s)"
    "body_loop (slice_from lines s) [] 0 False = take n (slice_from lines s)"
    "slice_from lines s \<noteq> [] \<longrightarrow> 1 \<le> n"
    by auto
  then show ?thesis
    by (intro exI[of _ n]) (simp add: get_method_body_def Let_def min_def)
qed

lemma count_newlines_join:
  "\<forall>l\<in>set body. CHR 0x0A \<notin> set l \<Longrightarrow> body \<noteq> [] \<Longrightarrow>
   count_list (join [CHR 0x0A] body) CHR 0x0A + 1 = length body"
  by (induction "[CHR 0x0A]" body rule: join.induct) (simp_all add: count_list_0_iff)

lemma set_slice_from: "set (slice_from xs i) \<subseteq> set xs"
  by (auto simp: slice_from_def dest: in_set_dropD)

lemmas run_simps =
  extract_methods_from_tree_def issued_signatures_def Let_def base_signature_def
  get_nested_class_path_def get_params_signature_def resolve_collision.simps
  str_nat.simps digit_char_def get_method_body_def slice_from_def
  analyze_dependencies_def get_visibility_def get_return_type_def startswith_def
  example_lines_def example_method_def example_tree_def example_ctx_def

text \<open>
  C10. Every record that extraction emits stores as \<open>line_count\<close> the number of lines
  captured in \<open>method_code\<close>: \<open>method_code\<close> is the newline-join of exactly \<open>line_count\<close>
  consecutive lines of the file, starting at the line \<open>lines[line - 1:]\<close> of the method's
  declaration (for a line number from 1 on, the lines from that line of the file), and it
  holds \<open>line_count - 1\<close> newline characters when no line holds one. \<open>line_count\<close> is at
  least 1 when there is a line at the declaration position.
\<close>

theorem line_count_matches_method_code:
  assumes "extract_methods_from_tree md5 iter tree lines ctx = Inr recs"
  shows "list_all2 (\<lambda>pn r. \<exists>line. node_position (snd pn) = Some line \<and>
            m_line_count r \<le> length (slice_from lines (line - 1)) \<and>
            m_method_code r
              = join [CHR 0x0A] (take (m_line_count r) (slice_from lines (line - 1))) \<and>
            (1 \<le> line \<longrightarrow> slice_from lines (line - 1) = drop (nat (line - 1)) lines) \<and>
            (slice_from lines (line - 1) \<noteq> [] \<longrightarrow> 1 \<le> m_line_count r) \<and>
            ((\<forall>l\<in>set lines. CHR 0x0A \<notin> set l) \<and> 1 \<le> m_line_count r
               \<longrightarrow> count_list (m_method_code r) CHR 0x0A + 1 = m_line_count r))
         tree recs"
proof -
  from assms obtain reg' where
    "extract_loop md5 iter lines ctx tree [] [] = Inr (recs, reg')"
    by (cases "extract_loop md5 iter lines ctx tree [] []")
       (auto simp: extract_methods_from_tree_def)
  from extract_loop_records[OF this]
  have rel: "list_all2 (\<lambda>pn r. \<exists>line. node_position (snd pn) = Some line \<and>
        (m_method_code r, m_line_count r) = get_method_body lines (line - 1) \<and>
        m_content_hash r = md5 (m_method_code r) \<and>
        m_internal_deps r = join '', ''
           (take 10 (fst (analyze_dependencies (ctx_package_name ctx) (ctx_imports ctx)))) \<and>
        m_external_libs r = join '', ''
           (take 10 (snd (analyze_dependencies (ctx_package_name ctx) (ctx_imports ctx)))))
       tree recs"
    by simp
  show ?thesis
  proof (rule list_all2_mono[OF rel])
    fix pn r
    assume "\<exists>line. node_position (snd pn) = Some line \<and>
        (m_method_code r, m_line_count r) = get_method_body lines (line - 1) \<and>
        m_content_hash r = md5 (m_method_code r) \<and>
        m_internal_deps r = join '', ''
           (take 10 (fst (analyze_dependencies (ctx_package_name ctx) (ctx_imports ctx)))) \<and>
        m_external_libs r = join '', ''
           (take 10 (snd (analyze_dependencies (ctx_package_name ctx) (ctx_imports ctx))))"
    then obtain line where pos: "node_position (snd pn) = Some line"
      and body: "(m_method_code r, m_line_count r) = get_method_body lines (line - 1)"
      by blast
    let ?ls = "slice_from lines (line - 1)"
    from get_method_body_prefix[of lines "line - 1"] body
    have n: "m_line_count r \<le> length ?ls"
      "m_method_code r = join [CHR 0x0A] (take (m_line_count r) ?ls)"
      "?ls \<noteq> [] \<longrightarrow> 1 \<le> m_line_count r"
      by auto
    have newlines: "count_list (m_method_code r) CHR 0x0A + 1 = m_line_count r"
      if clean: "\<forall>l\<in>set lines. CHR 0x0A \<notin> set l" and some: "1 \<le> m_line_count r"
    proof -
      have "\<forall>l\<in>set (take (m_line_count r) ?ls). CHR 0x0A \<notin> set l"
        using clean set_slice_from[of lines "line - 1"] by (auto dest: in_set_takeD)
      moreover have "take (m_line_count r) ?ls \<noteq> []"
        using some n(1) by auto
      ultimately have "count_list (join [CHR 0x0A] (take (m_line_count r) ?ls)) CHR 0x0A + 1
          = length (take (m_line_count r) ?ls)"
        by (rule count_newlines_join)
      with n(1,2) show ?thesis by (simp add: min_def)
    qed
    have "1 \<le> line \<longrightarrow> ?ls = drop (nat (line - 1)) lines"
      by (simp add: slice_from_def)
    with pos n newlines
    show "\<exists>line. node_position (snd pn) = Some line \<and>
            m_line_count r \<le> length (slice_from lines (line - 1)) \<and>
            m_method_code r
              = join [CHR 0x0A] (take (m_line_count r) (slice_from lines (line - 1))) \<and>
            (1 \<le> line \<longrightarrow> slice_from lines (line - 1) = drop (nat (line - 1)) lines) \<and>
            (slice_from lines (line - 1) \<noteq> [] \<longrightarrow> 1 \<le> m_line_count r) \<and>
            ((\<forall>l\<in>set lines. CHR 0x0A \<notin> set l) \<and> 1 \<le> m_line_count r
               \<longrightarrow> count_list (m_method_code r) CHR 0x0A + 1 = m_line_count r)"
      by blast
  qed
qed


theorem line_count_matches_method_code_witness:
  "\<exists>r. extract_methods_from_tree (\<lambda>s. s) (\<lambda>S. []) [([ClassDeclaration ''A''], example_method ''run'' 2)]
          example_lines example_ctx = Inr [r] \<and>
        m_line_count r = 3 \<and>
        m_method_code r = join [CHR 0x0A] (take 3 (drop 1 example_lines)) \<and>
        count_list (m_method_code r) CHR 0x0A + 1 = 3"
proof -
  have "\<exists>r. extract_methods_from_tree (\<lambda>s. s) (\<lambda>S. []) [([ClassDeclaration ''A''], example_method ''run'' 2)]
          example_lines example_ctx = Inr [r] \<and> m_line_count r = 3"
    by (simp add: run_simps)
  then obtain r where r: "extract_methods_from_tree (\<lambda>s. s) (\<lambda>S. [])
       [([ClassDeclaration ''A''], example_method ''run'' 2)] example_lines example_ctx = Inr [r]"
    "m_line_count r = 3"
    by blast
  have clean: "\<forall>l\<in>set example_lines. CHR 0x0A \<notin> set l"
    by (simp add: example_lines_def)
  from line_count_matches_method_code[OF r(1)] r(2) clean
  have "m_method_code r = join [CHR 0x0A] (take 3 (drop 1 example_lines))"
    and "count_list (m_method_code r) CHR 0x0A + 1 = 3"
    by (auto simp: example_method_def)
  with r show ?thesis by (intro exI[of _ r]) simp
qed

lemma no_class_body_parts: "no_class_body path \<Longrightarrow> class_path_parts path = []"
  by (induction path rule: no_class_body.induct) (auto split: option.splits)

lemma no_class_body_unknown: "no_class_body path \<Longrightarrow> get_nested_class_path path = ''Unknown''"
  by (simp add: get_nested_class_path_def no_class_body_parts)

text \<open>
  C2 (as amended). Within one file the signatures that the resolver registers are pairwise
  distinct: each is the base key when that is unused, and otherwise the base key followed
  by \<open>#sub_k\<close> for the first \<open>k = 1, 2, ...\<close> whose signature is unused. The identities
  are the digests of these signatures, so they are pairwise distinct whenever the digest
  does not collide on them. A method enclosed by no class declaration and by no body of
  an anonymous class has \<open>Unknown\<close> as its enclosing path.
\<close>

theorem signatures_within_file_distinct:
  assumes "extract_methods_from_tree md5 iter tree lines ctx = Inr recs"
  shows "\<exists>sigs. issued_signatures md5 iter tree lines ctx = Inr sigs \<and>
           length sigs = length tree \<and> distinct sigs \<and>
           map m_id recs = map md5 sigs \<and>
           (inj_on md5 (set sigs) \<longrightarrow> distinct (map m_id recs)) \<and>
           (\<forall>i<length tree.
              sigs ! i \<notin> set (take i sigs) \<and>
              (base_signature ctx (fst (tree ! i)) (snd (tree ! i)) \<notin> set (take i sigs)
                 \<longrightarrow> sigs ! i = base_signature ctx (fst (tree ! i)) (snd (tree ! i))) \<and>
              (base_signature ctx (fst (tree ! i)) (snd (tree ! i)) \<in> set (take i sigs)
                 \<longrightarrow> (\<exists>k\<ge>1. sigs ! i =
                          base_signature ctx (fst (tree ! i)) (snd (tree ! i))
                            @ ''#sub_'' @ str_nat k \<and>
                        (\<forall>j. 1 \<le> j \<and> j < k \<longrightarrow>
                          base_signature ctx (fst (tree ! i)) (snd (tree ! i))
                            @ ''#sub_'' @ str_nat j \<in> set (take i sigs)))) \<and>
              (no_class_body (fst (tree ! i)) \<longrightarrow>
                 base_signature ctx (fst (tree ! i)) (snd (tree ! i)) =
                   ctx_rel_path ctx @ ''#Unknown#'' @ node_name (snd (tree ! i))
                     @ ''('' @ get_params_signature (snd (tree ! i)) @ '')''))"
proof -
  from assms obtain reg' where
    loop: "extract_loop md5 iter lines ctx tree [] [] = Inr (recs, reg')"
    by (cases "extract_loop md5 iter lines ctx tree [] []")
       (auto simp: extract_methods_from_tree_def)
  from extract_loop_registry[OF loop] obtain sigs where sigs:
    "reg' = rev sigs" "length sigs = length tree" "map m_id recs = map md5 sigs"
    "\<forall>i<length tree. sigs ! i =
        resolve_collision (rev (take i sigs))
          (base_signature ctx (fst (tree ! i)) (snd (tree ! i)))
          (base_signature ctx (fst (tree ! i)) (snd (tree ! i))) 1"
    by auto
  have issued: "issued_signatures md5 iter tree lines ctx = Inr sigs"
    by (simp add: issued_signatures_def loop sigs(1))
  have each: "sigs ! i \<notin> set (take i sigs) \<and>
              (base_signature ctx (fst (tree ! i)) (snd (tree ! i)) \<notin> set (take i sigs)
                 \<longrightarrow> sigs ! i = base_signature ctx (fst (tree ! i)) (snd (tree ! i))) \<and>
              (base_signature ctx (fst (tree ! i)) (snd (tree ! i)) \<in> set (take i sigs)
                 \<longrightarrow> (\<exists>k\<ge>1. sigs ! i =
                          base_signature ctx (fst (tree ! i)) (snd (tree ! i))
                            @ ''#sub_'' @ str_nat k \<and>
                        (\<forall>j. 1 \<le> j \<and> j < k \<longrightarrow>
                          base_signature ctx (fst (tree ! i)) (snd (tree ! i))
                            @ ''#sub_'' @ str_nat j \<in> set (take i sigs)))) \<and>
              (no_class_body (fst (tree ! i)) \<longrightarrow>
                 base_signature ctx (fst (tree ! i)) (snd (tree ! i)) =
                   ctx_rel_path ctx @ ''#Unknown#'' @ node_name (snd (tree ! i))
                     @ ''('' @ get_params_signature (snd (tree ! i)) @ '')'')"
    if i: "i < length tree" for i
  proof -
    let ?base = "base_signature ctx (fst (tree ! i)) (snd (tree ! i))"
    let ?reg = "rev (take i sigs)"
    from sigs(4) i have eq: "sigs ! i = resolve_collision ?reg ?base ?base 1"
      by blast
    have fresh: "sigs ! i \<notin> set (take i sigs)"
      using resolve_collision_fresh[of ?reg ?base ?base 1] eq by simp
    have unused: "?base \<notin> set (take i sigs) \<longrightarrow> sigs ! i = ?base"
      using resolve_collision_unused[of ?base ?reg ?base 1] eq by simp
    have suffixed: "?base \<in> set (take i sigs) \<longrightarrow>
        (\<exists>k\<ge>1. sigs ! i = ?base @ ''#sub_'' @ str_nat k \<and>
           (\<forall>j. 1 \<le> j \<and> j < k \<longrightarrow> ?base @ ''#sub_'' @ str_nat j \<in> set (take i sigs)))"
      using resolve_collision_suffix[where fin="?base" and reg="?reg" and base="?base" and c=1] eq by simp
    have unknown: "no_class_body (fst (tree ! i)) \<longrightarrow>
        ?base = ctx_rel_path ctx @ ''#Unknown#'' @ node_name (snd (tree ! i))
                     @ ''('' @ get_params_signature (snd (tree ! i)) @ '')''"
      by (simp add: base_signature_def no_class_body_unknown)
    from fresh unused suffixed unknown show ?thesis by blast
  qed
  have "\<forall>i<length sigs. sigs ! i \<notin> set (take i sigs)"
    using each sigs(2) by simp
  then have dist: "distinct sigs"
    by (rule issued_distinct)
  have ids: "inj_on md5 (set sigs) \<longrightarrow> distinct (map m_id recs)"
    using dist sigs(3) by (simp add: distinct_map)
  from issued sigs(2,3) dist ids each show ?thesis
    by (intro exI[of _ sigs]) blast
qed

theorem signatures_within_file_distinct_witness:
  "\<exists>recs. extract_methods_from_tree (\<lambda>s. s) (\<lambda>S. []) example_tree example_lines example_ctx
            = Inr recs \<and>
          no_class_body [OtherNode, OtherNode] \<and>
          map m_id recs = [''app/Job.java#Unknown#run()'', ''app/Job.java#Unknown#run()#sub_1''] \<and>
          distinct (map m_id recs)"
proof -
  have "\<exists>recs. extract_methods_from_tree (\<lambda>s. s) (\<lambda>S. []) example_tree example_lines example_ctx
            = Inr recs \<and>
          map m_id recs = [''app/Job.java#Unknown#run()'', ''app/Job.java#Unknown#run()#sub_1'']"
    by (simp add: run_simps)
  then obtain recs where recs:
    "extract_methods_from_tree (\<lambda>s. s) (\<lambda>S. []) example_tree example_lines example_ctx = Inr recs"
    "map m_id recs = [''app/Job.java#Unknown#run()'', ''app/Job.java#Unknown#run()#sub_1'']"
    by (elim exE conjE)
  from signatures_within_file_distinct[OF recs(1)] obtain sigs where
    "distinct sigs" "map m_id recs = map (\<lambda>s. s) sigs"
    by blast
  then have "distinct (map m_id recs)" by simp
  with recs show ?thesis by (intro exI[of _ recs]) simp
qed

text \<open>
  C2 as stated fails for a method in the body of an anonymous class that no class
  declaration encloses (an anonymous class in an interface or an enum): it has no
  enclosing named class, and its enclosing path is \<open>AnonL5\<close>, not \<open>Unknown\<close>.
\<close>

theorem anonymous_body_not_unknown:
  "no_named_class [OtherNode, ClassCreator (Some 1) (Some 5), OtherNode] \<and>
   get_nested_class_path [OtherNode, ClassCreator (Some 1) (Some 5), OtherNode] = ''AnonL5''"
  by (simp add: get_nested_class_path_def str_int_def str_nat.simps digit_char_def)

lemma extract_loop_Cons_Some:
  "node_position node = Some line \<Longrightarrow>
   \<exists>r. extract_loop md5 iter lines ctx ((path, node) # rest) acc reg
         = extract_loop md5 iter lines ctx rest (acc @ [r])
             (resolve_collision reg (base_signature ctx path node)
                (base_signature ctx path node) 1 # reg) \<and>
       m_id r = md5 (resolve_collision reg (base_signature ctx path node)
                (base_signature ctx path node) 1) \<and>
       m_content_hash r = md5 (fst (get_method_body lines (line - 1)))"
  apply (simp add: Let_def split: prod.splits)
  apply (intro allI impI)
  apply (rule exI)
  apply (intro conjI)
    apply (rule refl)
   apply simp_all
  done

lemma extract_loop_iter:
  "map (\<lambda>m. (m_id m, m_content_hash m)) acc1 = map (\<lambda>m. (m_id m, m_content_hash m)) acc2 \<Longrightarrow>
   map_sum id (\<lambda>out. (map (\<lambda>m. (m_id m, m_content_hash m)) (fst out), snd out))
       (extract_loop md5 iter1 lines ctx tree acc1 reg)
   = map_sum id (\<lambda>out. (map (\<lambda>m. (m_id m, m_content_hash m)) (fst out), snd out))
       (extract_loop md5 iter2 lines ctx tree acc2 reg)"
proof (induction tree arbitrary: acc1 acc2 reg)
  case Nil
  then show ?case by simp
next
  case (Cons pn rest)
  obtain path node where pn: "pn = (path, node)" by (cases pn)
  show ?case
  proof (cases "node_position node")
    case None
    then show ?thesis by (simp add: pn)
  next
    case (Some line)
    let ?sig = "resolve_collision reg (base_signature ctx path node)
                (base_signature ctx path node) 1"
    from extract_loop_Cons_Some[OF Some, of md5 iter1 lines ctx path rest acc1 reg]
    obtain r1 where r1:
      "extract_loop md5 iter1 lines ctx ((path, node) # rest) acc1 reg
         = extract_loop md5 iter1 lines ctx rest (acc1 @ [r1]) (?sig # reg)"
      "m_id r1 = md5 ?sig" "m_content_hash r1 = md5 (fst (get_method_body lines (line - 1)))"
      by blast
    from extract_loop_Cons_Some[OF Some, of md5 iter2 lines ctx path rest acc2 reg]
    obtain r2 where r2:
      "extract_loop md5 iter2 lines ctx ((path, node) # rest) acc2 reg
         = extract_loop md5 iter2 lines ctx rest (acc2 @ [r2]) (?sig # reg)"
      "m_id r2 = md5 ?sig" "m_content_hash r2 = md5 (fst (get_method_body lines (line - 1)))"
      by blast
    have "map (\<lambda>m. (m_id m, m_content_hash m)) (acc1 @ [r1])
            = map (\<lambda>m. (m_id m, m_content_hash m)) (acc2 @ [r2])"
      using Cons.prems r1(2,3) r2(2,3) by simp
    from Cons.IH[OF this, of "?sig # reg"] show ?thesis
      unfolding pn r1(1) r2(1) .
  qed
qed

text \<open>
  C3. The identity and the content hash of every method are the same in two runs over the
  same tree, lines and file context, whatever order the two runs walk Python sets in:
  the only value of a run that reaches a record is the visibility, and neither the
  identity nor the fingerprint reads it.
\<close>

theorem identity_assignment_deterministic:
  "map_sum id (map (\<lambda>m. (m_id m, m_content_hash m)))
       (extract_methods_from_tree md5 iter1 tree lines ctx)
   = map_sum id (map (\<lambda>m. (m_id m, m_content_hash m)))
       (extract_methods_from_tree md5 iter2 tree lines ctx)"
proof -
  have "map_sum id fst (map_sum id (\<lambda>out. (map (\<lambda>m. (m_id m, m_content_hash m)) (fst out), snd out))
       (extract_loop md5 iter1 lines ctx tree [] []))
     = map_sum id fst (map_sum id (\<lambda>out. (map (\<lambda>m. (m_id m, m_content_hash m)) (fst out), snd out))
       (extract_loop md5 iter2 lines ctx tree [] []))"
    by (subst extract_loop_iter[of "[]" "[]" md5 iter1 lines ctx tree "[]" iter2]) simp_all
  then show ?thesis
    by (simp add: extract_methods_from_tree_def sum.map_comp comp_def)
qed

section \<open>Dependency classification\<close>

lemma split_on_nonempty: "split_on c s \<noteq> []"
  by (induction s) (auto split: list.splits)

lemma join_Cons_Cons: "join s0 ((x # p) # ps) = x # join s0 (p # ps)"
  by (cases ps) simp_all

lemma join_split_on: "join [c] (split_on c s) = s"
proof (induction s)
  case Nil
  then show ?case by simp
next
  case (Cons x xs)
  obtain p ps where split: "split_on c xs = p # ps"
    using split_on_nonempty[of c xs] by (cases "split_on c xs") auto
  show ?case
  proof (cases "x = c")
    case True
    with Cons split show ?thesis by simp
  next
    case False
    with Cons split show ?thesis by (simp add: join_Cons_Cons)
  qed
qed

lemma startswith_append: "startswith (p @ rest) p"
  by (simp add: startswith_def)

lemma startswith_join_take2: "startswith (join s0 xs) (join s0 (take 2 xs))"
proof (cases xs)
  case Nil
  then show ?thesis by (simp add: startswith_def)
next
  case (Cons a ys)
  note xs = this
  show ?thesis
  proof (cases ys)
    case Nil
    with xs show ?thesis by (simp add: startswith_def)
  next
    case (Cons b zs)
    with xs show ?thesis
      by (cases zs) (simp_all add: startswith_def)
  qed
qed

lemma analyze_dependencies_prefix:
  "analyze_dependencies pkg all_imports =
     (filter (\<lambda>i. startswith i (dependency_prefix pkg)) all_imports,
      filter (\<lambda>i. \<not> startswith i (dependency_prefix pkg)) all_imports)"
proof -
  let ?parts = "split_on CHR ''.'' pkg"
  have "(if length ?parts > 1 then join ''.'' (take 2 ?parts)
         else (case ?parts of [] \<Rightarrow> [] | p # _ \<Rightarrow> p)) = dependency_prefix pkg"
  proof (cases ?parts)
    case Nil
    then show ?thesis using split_on_nonempty[of "CHR ''.''" pkg] by simp
  next
    case (Cons a ys)
    note parts = this
    show ?thesis
    proof (cases ys)
      case Nil
      with parts have "join ''.'' ?parts = a" by simp
      then have "pkg = a" by (simp add: join_split_on)
      with parts Nil show ?thesis by (simp add: dependency_prefix_def)
    next
      case (Cons b zs)
      with parts show ?thesis by (simp add: dependency_prefix_def)
    qed
  qed
  then show ?thesis
    by (simp add: analyze_dependencies_def Let_def)
qed

lemma shares_two_segments_startswith:
  assumes "shares_two_segments pkg imp"
  shows "startswith imp (dependency_prefix pkg)"
proof -
  let ?ps = "split_on CHR ''.'' pkg"
  let ?is = "split_on CHR ''.'' imp"
  from assms have same: "take 2 ?is = take 2 ?ps"
    by (simp add: shares_two_segments_def)
  have imp: "join ''.'' ?is = imp" by (rule join_split_on)
  have pkg: "join ''.'' ?ps = pkg" by (rule join_split_on)
  have "dependency_prefix pkg = join ''.'' (take 2 ?ps)"
  proof (cases ?ps)
    case Nil
    then show ?thesis using split_on_nonempty[of "CHR ''.''" pkg] by simp
  next
    case (Cons a ys)
    note parts = this
    show ?thesis
    proof (cases ys)
      case Nil
      with parts pkg show ?thesis by (simp add: dependency_prefix_def)
    next
      case (Cons b zs)
      with parts show ?thesis by (simp add: dependency_prefix_def)
    qed
  qed
  also have "\<dots> = join ''.'' (take 2 ?is)" by (simp add: same)
  finally show ?thesis
    using startswith_join_take2[of "''.''" ?is] by (simp add: imp)
qed

text \<open>
  C7 (as amended). An import is internal exactly when its text starts with the dependency
  prefix of the file's package, and external otherwise. Every import that shares the
  first two segments with the package is therefore internal; an import that only extends
  the second segment is internal as well. Each of the two lists is cut to its first 10
  entries before it is joined into the stored string.
\<close>

theorem dependency_classification:
  "(\<forall>i\<in>set all_imports.
      (i \<in> set (fst (analyze_dependencies pkg all_imports))
         \<longleftrightarrow> startswith i (dependency_prefix pkg)) \<and>
      (i \<in> set (snd (analyze_dependencies pkg all_imports))
         \<longleftrightarrow> \<not> startswith i (dependency_prefix pkg)) \<and>
      (shares_two_segments pkg i
         \<longrightarrow> i \<in> set (fst (analyze_dependencies pkg all_imports)))) \<and>
   (extract_methods_from_tree md5 iter tree lines ctx = Inr recs \<longrightarrow>
      (\<forall>r\<in>set recs. \<exists>internal external.
          analyze_dependencies (ctx_package_name ctx) (ctx_imports ctx) = (internal, external) \<and>
          m_internal_deps r = join '', '' (take 10 internal) \<and>
          m_external_libs r = join '', '' (take 10 external) \<and>
          length (take 10 internal) \<le> 10 \<and> length (take 10 external) \<le> 10))"
proof (intro conjI ballI impI)
  fix i assume "i \<in> set all_imports"
  then show "(i \<in> set (fst (analyze_dependencies pkg all_imports)))
         = startswith i (dependency_prefix pkg)"
    by (simp add: analyze_dependencies_prefix)
next
  fix i assume "i \<in> set all_imports"
  then show "(i \<in> set (snd (analyze_dependencies pkg all_imports)))
         = (\<not> startswith i (dependency_prefix pkg))"
    by (simp add: analyze_dependencies_prefix)
next
  fix i assume "i \<in> set all_imports" "shares_two_segments pkg i"
  then show "i \<in> set (fst (analyze_dependencies pkg all_imports))"
    by (simp add: analyze_dependencies_prefix shares_two_segments_startswith)
next
  fix r
  assume run: "extract_methods_from_tree md5 iter tree lines ctx = Inr recs"
    and r: "r \<in> set recs"
  from run obtain reg' where
    "extract_loop md5 iter lines ctx tree [] [] = Inr (recs, reg')"
    by (cases "extract_loop md5 iter lines ctx tree [] []")
       (auto simp: extract_methods_from_tree_def)
  from extract_loop_records[OF this] r
  have "m_internal_deps r = join '', ''
           (take 10 (fst (analyze_dependencies (ctx_package_name ctx) (ctx_imports ctx))))"
    and "m_external_libs r = join '', ''
           (take 10 (snd (analyze_dependencies (ctx_package_name ctx) (ctx_imports ctx))))"
    by (auto simp: list_all2_conv_all_nth in_set_conv_nth)
  then show "\<exists>internal external.
          analyze_dependencies (ctx_package_name ctx) (ctx_imports ctx) = (internal, external) \<and>
          m_internal_deps r = join '', '' (take 10 internal) \<and>
          m_external_libs r = join '', '' (take 10 external) \<and>
          length (take 10 internal) \<le> 10 \<and> length (take 10 external) \<le> 10"
    by (cases "analyze_dependencies (ctx_package_name ctx) (ctx_imports ctx)") simp
qed

text \<open>
  C7 as stated fails: for the package \<open>com.acme.app\<close> the import \<open>com.acmetools.Log\<close>
  is classified as internal, though its second segment is \<open>acmetools\<close>, not \<open>acme\<close>.
\<close>

theorem prefix_without_segment_boundary:
  "fst (analyze_dependencies ''com.acme.app'' [''com.acmetools.Log'']) = [''com.acmetools.Log''] \<and>
   \<not> shares_two_segments ''com.acme.app'' ''com.acmetools.Log''"
  by (simp add: analyze_dependencies_def shares_two_segments_def startswith_def)

theorem dependency_classification_witness:
  "\<exists>recs. extract_methods_from_tree (\<lambda>s. s) (\<lambda>S. []) example_tree example_lines example_ctx
            = Inr recs \<and>
      shares_two_segments ''com.acme.app'' ''com.acme.util.Clock'' \<and>
      ''com.acme.util.Clock'' \<in> set (fst (analyze_dependencies ''com.acme.app'' (ctx_imports example_ctx))) \<and>
      ''java.util.List'' \<in> set (snd (analyze_dependencies ''com.acme.app'' (ctx_imports example_ctx))) \<and>
      map m_internal_deps recs = [''com.acme.util.Clock, com.acmetools.Log'', ''com.acme.util.Clock, com.acmetools.Log'']"
proof -
  have "\<exists>recs. extract_methods_from_tree (\<lambda>s. s) (\<lambda>S. []) example_tree example_lines example_ctx
            = Inr recs \<and>
      map m_internal_deps recs = [''com.acme.util.Clock, com.acmetools.Log'', ''com.acme.util.Clock, com.acmetools.Log'']"
    by (simp add: run_simps)
  then obtain recs where recs:
    "extract_methods_from_tree (\<lambda>s. s) (\<lambda>S. []) example_tree example_lines example_ctx = Inr recs"
    "map m_internal_deps recs = [''com.acme.util.Clock, com.acmetools.Log'', ''com.acme.util.Clock, com.acmetools.Log'']"
    by (elim exE conjE)
  have shares: "shares_two_segments ''com.acme.app'' ''com.acme.util.Clock''"
    by (simp add: shares_two_segments_def)
  have mem: "''com.acme.util.Clock'' \<in> set (ctx_imports example_ctx)"
    "''java.util.List'' \<in> set (ctx_imports example_ctx)"
    by (simp_all add: example_ctx_def)
  have ext: "\<not> startswith ''java.util.List'' (dependency_prefix ''com.acme.app'')"
    by (simp add: dependency_prefix_def startswith_def)
  from dependency_classification[of "ctx_imports example_ctx" "''com.acme.app''"
      "\<lambda>s. s" "\<lambda>S. []" example_tree example_lines example_ctx recs]
  have "''com.acme.util.Clock'' \<in> set (fst (analyze_dependencies ''com.acme.app'' (ctx_imports example_ctx)))"
    and "''java.util.List'' \<in> set (snd (analyze_dependencies ''com.acme.app'' (ctx_imports example_ctx)))"
    using shares mem ext by blast+
  with recs shares show ?thesis
    by (intro exI[of _ recs]) simp
qed

section \<open>Files that fail\<close>

lemma extract_loop_no_position:
  "(path, node) \<in> set tree \<Longrightarrow> node_position node = None \<Longrightarrow>
   \<exists>e. extract_loop md5 iter lines ctx tree acc reg = Inl e"
proof (induction tree arbitrary: acc reg)
  case Nil
  then show ?case by simp
next
  case (Cons pn rest)
  obtain path' node' where pn: "pn = (path', node')" by (cases pn)
  show ?case
  proof (cases "node_position node'")
    case None
    then show ?thesis by (simp add: pn)
  next
    case (Some line)
    with Cons.prems pn have "(path, node) \<in> set rest" by auto
    from Cons.IH[OF this Cons.prems(2)] Some show ?thesis
      by (simp add: pn Let_def split: prod.splits)
  qed
qed

lemma scan_files_append:
  "scan_files env md5 iter directory root_dir (fs1 @ fs2)
     = scan_files env md5 iter directory root_dir fs1
         @ scan_files env md5 iter directory root_dir fs2"
  by (induction fs1) simp_all

lemma scan_walk_append:
  "scan_walk env md5 iter directory (ws1 @ ws2)
     = scan_walk env md5 iter directory ws1 @ scan_walk env md5 iter directory ws2"
  by (induction ws1) auto

lemma scan_files_skip:
  "parse_file env md5 iter (path_join env root_dir bad) directory = [] \<Longrightarrow>
   scan_files env md5 iter directory root_dir (bad # fs)
     = scan_files env md5 iter directory root_dir fs"
  by simp

text \<open>
  C9. \<open>extract_from_directory\<close> on a directory that does not exist returns the empty
  list. A file contributes no record when reading it raises, when the parser raises (a
  syntax error or anything else), when \<open>os.path.relpath\<close> raises, or when the extraction
  itself raises (a method node without a position). The scan goes on: with a file that
  contributes nothing, the result is what the files before it and after it contribute, in
  order.
\<close>

theorem extraction_failures_are_local:
  "(\<not> path_exists env directory \<longrightarrow> extract_from_directory env md5 iter directory = []) \<and>
   (read_text env file_path = Inl e \<longrightarrow> parse_file env md5 iter file_path repo_root = []) \<and>
   (read_text env file_path = Inr code \<and> javalang_parse env code = Inl e
      \<longrightarrow> parse_file env md5 iter file_path repo_root = []) \<and>
   (read_text env file_path = Inr code \<and> javalang_parse env code = Inr tree \<and>
    relpath env file_path repo_root = Inl e
      \<longrightarrow> parse_file env md5 iter file_path repo_root = []) \<and>
   (read_text env file_path = Inr code \<and> javalang_parse env code = Inr tree \<and>
    (path, node) \<in> set (cu_methods tree) \<and> node_position node = None
      \<longrightarrow> parse_file env md5 iter file_path repo_root = []) \<and>
   (path_exists env directory \<and>
    walk env directory = before @ (root_dir, fs1 @ bad # fs2) # after \<and>
    parse_file env md5 iter (path_join env root_dir bad) directory = []
      \<longrightarrow> extract_from_directory env md5 iter directory
            = scan_walk env md5 iter directory before
              @ scan_files env md5 iter directory root_dir fs1
              @ scan_files env md5 iter directory root_dir fs2
              @ scan_walk env md5 iter directory after)"
proof (intro conjI impI)
  assume "\<not> path_exists env directory"
  then show "extract_from_directory env md5 iter directory = []"
    by (simp add: extract_from_directory_def)
next
  assume "read_text env file_path = Inl e"
  then show "parse_file env md5 iter file_path repo_root = []"
    by (simp add: parse_file_def)
next
  assume "read_text env file_path = Inr code \<and> javalang_parse env code = Inl e"
  then show "parse_file env md5 iter file_path repo_root = []"
    by (simp add: parse_file_def)
next
  assume "read_text env file_path = Inr code \<and> javalang_parse env code = Inr tree \<and>
    relpath env file_path repo_root = Inl e"
  then show "parse_file env md5 iter file_path repo_root = []"
    by (simp add: parse_file_def)
next
  assume h: "read_text env file_path = Inr code \<and> javalang_parse env code = Inr tree \<and>
    (path, node) \<in> set (cu_methods tree) \<and> node_position node = None"
  then have raises: "\<exists>e. extract_methods_from_tree md5 iter (cu_methods tree) lines ctx = Inl e"
    for lines ctx
    using extract_loop_no_position[of path node "cu_methods tree" md5 iter lines ctx "[]" "[]"]
    by (auto simp: extract_methods_from_tree_def)
  show "parse_file env md5 iter file_path repo_root = []"
  proof (cases "relpath env file_path repo_root")
    case (Inl e')
    with h show ?thesis by (simp add: parse_file_def)
  next
    case (Inr rel_path)
    let ?ctx = "\<lparr> ctx_rel_path = rel_path,
                   ctx_package_name =
                     (case cu_package tree of None \<Rightarrow> ''default'' | Some n \<Rightarrow> n),
                   ctx_imports = cu_imports tree,
                   ctx_component =
                     (case split_on (sep env) rel_path of [] \<Rightarrow> [] | c # _ \<Rightarrow> c) \<rparr>"
    from raises[of "splitlines env code" ?ctx] obtain e' where
      "extract_methods_from_tree md5 iter (cu_methods tree) (splitlines env code) ?ctx = Inl e'"
      by blast
    with h Inr show ?thesis by (simp add: parse_file_def Let_def)
  qed
next
  assume h: "path_exists env directory \<and>
    walk env directory = before @ (root_dir, fs1 @ bad # fs2) # after \<and>
    parse_file env md5 iter (path_join env root_dir bad) directory = []"
  then have "scan_files env md5 iter directory root_dir (fs1 @ bad # fs2)
      = scan_files env md5 iter directory root_dir fs1
        @ scan_files env md5 iter directory root_dir fs2"
    by (simp only: scan_files_append scan_files_skip)
  with h show "extract_from_directory env md5 iter directory
            = scan_walk env md5 iter directory before
              @ scan_files env md5 iter directory root_dir fs1
              @ scan_files env md5 iter directory root_dir fs2
              @ scan_walk env md5 iter directory after"
    by (simp add: extract_from_directory_def scan_walk_append)
qed

theorem extraction_failures_are_local_witness:
  "extract_from_directory example_env (\<lambda>s. s) (\<lambda>S. []) ''nowhere'' = [] \<and>
   parse_file example_env (\<lambda>s. s) (\<lambda>S. []) ''repo/app/Broken.java'' ''repo'' = [] \<and>
   extract_from_directory example_env (\<lambda>s. s) (\<lambda>S. []) ''repo''
     = parse_file example_env (\<lambda>s. s) (\<lambda>S. []) ''repo/app/Job.java'' ''repo'' \<and>
   length (extract_from_directory example_env (\<lambda>s. s) (\<lambda>S. []) ''repo'') = 2"
proof -
  let ?h = "\<lambda>s::string. s" and ?it = "\<lambda>S::string set. []::string list"
  note inst = extraction_failures_are_local[where env=example_env and ?md5.0="?h" and iter="?it"]
  have missing: "extract_from_directory example_env ?h ?it ''nowhere'' = []"
    using inst[where directory="''nowhere''"] by (simp add: example_env_def)
  have "read_text example_env ''repo/app/Broken.java'' = Inr ''broken'' \<and>
        javalang_parse example_env ''broken'' = Inl JavaSyntaxError"
    by (simp add: example_env_def)
  with inst[where file_path="''repo/app/Broken.java''" and code="''broken''"
              and e=JavaSyntaxError and repo_root="''repo''"]
  have broken: "parse_file example_env ?h ?it ''repo/app/Broken.java'' ''repo'' = []"
    by blast
  have "path_exists example_env ''repo'' \<and>
        walk example_env ''repo''
          = [] @ (''repo/app'', [] @ ''Broken.java''
                # [''Job.java'', ''module-info.java'', ''README.md'']) # [] \<and>
        parse_file example_env ?h ?it (path_join example_env ''repo/app'' ''Broken.java'')
          ''repo'' = []"
    using broken by (simp add: example_env_def)
  with inst[where directory="''repo''" and before="[]" and root_dir="''repo/app''"
              and ?fs1.0="[]" and bad="''Broken.java''"
              and ?fs2.0="[''Job.java'', ''module-info.java'', ''README.md'']" and after="[]"]
  have "extract_from_directory example_env ?h ?it ''repo''
          = scan_walk example_env ?h ?it ''repo'' []
            @ scan_files example_env ?h ?it ''repo'' ''repo/app'' []
            @ scan_files example_env ?h ?it ''repo'' ''repo/app''
                [''Job.java'', ''module-info.java'', ''README.md'']
            @ scan_walk example_env ?h ?it ''repo'' []"
    by blast
  then have rest: "extract_from_directory example_env ?h ?it ''repo''
          = parse_file example_env ?h ?it ''repo/app/Job.java'' ''repo''"
    by (simp add: endswith_def startswith_def example_env_def)
  have "length (parse_file example_env ?h ?it ''repo/app/Job.java'' ''repo'') = 2"
    by (simp add: parse_file_def example_env_def example_unit_def run_simps)
  with missing broken rest show ?thesis by simp
qed

section \<open>Reconciliation\<close>

lemma lookup_Nil: "lookup [] i = None"
  by (simp add: lookup_def)

lemma lookup_Cons: "lookup (r # tbl) i = (if row_id r = i then Some r else lookup tbl i)"
  by (simp add: lookup_def)

lemma lookup_None_iff: "lookup tbl i = None \<longleftrightarrow> (\<forall>r\<in>set tbl. row_id r \<noteq> i)"
  by (auto simp: lookup_def find_None_iff)

lemma lookup_Some_row_id: "lookup tbl i = Some r \<Longrightarrow> row_id r = i \<and> r \<in> set tbl"
  by (auto simp: lookup_def find_Some_iff)

lemma lookup_map:
  "(\<And>r. row_id (f r) = row_id r) \<Longrightarrow> lookup (map f tbl) i = map_option f (lookup tbl i)"
  by (induction tbl) (simp_all add: lookup_Nil lookup_Cons)

lemma lookup_snoc:
  "lookup (tbl @ [x]) i =
     (case lookup tbl i of None \<Rightarrow> (if row_id x = i then Some x else None) | Some r \<Rightarrow> Some r)"
  by (induction tbl) (simp_all add: lookup_Nil lookup_Cons)

lemma row_id_on_conflict_update: "row_id (on_conflict_update r x) = row_id r"
  by (simp add: on_conflict_update_def)

lemma lookup_upsert_row:
  "lookup (upsert_row tbl x) i =
     (if i = row_id x
      then Some (case lookup tbl i of None \<Rightarrow> x | Some r \<Rightarrow> on_conflict_update r x)
      else lookup tbl i)"
proof (cases "\<exists>r\<in>set tbl. row_id r = row_id x")
  case True
  then obtain r0 where r0: "lookup tbl (row_id x) = Some r0"
    using lookup_None_iff[of tbl "row_id x"] by (cases "lookup tbl (row_id x)") auto
  have "lookup (map (\<lambda>r. if row_id r = row_id x then on_conflict_update r x else r) tbl) i
          = map_option (\<lambda>r. if row_id r = row_id x then on_conflict_update r x else r)
              (lookup tbl i)"
    by (rule lookup_map) (simp add: row_id_on_conflict_update)
  with True r0 show ?thesis
    by (cases "lookup tbl i") (auto simp: upsert_row_def dest: lookup_Some_row_id)
next
  case False
  then have "lookup tbl (row_id x) = None"
    by (simp add: lookup_None_iff)
  with False show ?thesis
    by (auto simp: upsert_row_def lookup_snoc split: option.splits dest: lookup_Some_row_id)
qed

lemma lookup_foldl_upsert_row:
  "distinct (map row_id xs) \<Longrightarrow>
   lookup (foldl upsert_row tbl xs) i =
     (case find (\<lambda>x. row_id x = i) xs of
        None \<Rightarrow> lookup tbl i
      | Some x \<Rightarrow> Some (case lookup tbl i of None \<Rightarrow> x | Some r \<Rightarrow> on_conflict_update r x))"
proof (induction xs arbitrary: tbl)
  case Nil
  then show ?case by simp
next
  case (Cons x xs)
  from Cons.prems have dist: "distinct (map row_id xs)" and new: "row_id x \<notin> row_id ` set xs"
    by simp_all
  show ?case
  proof (cases "row_id x = i")
    case True
    have "\<not> (\<exists>y. y \<in> set xs \<and> row_id y = i)"
    proof
      assume "\<exists>y. y \<in> set xs \<and> row_id y = i"
      then obtain y where "y \<in> set xs" "row_id y = i" by blast
      with True have "row_id x \<in> row_id ` set xs" by (metis imageI)
      with new show False by contradiction
    qed
    then have "find (\<lambda>y. row_id y = i) xs = None"
      by (simp add: find_None_iff)
    with True show ?thesis
      by (simp add: Cons.IH[OF dist] lookup_upsert_row)
  next
    case False
    then have "lookup (upsert_row tbl x) i = lookup tbl i"
      by (auto simp: lookup_upsert_row)
    with False show ?thesis
      by (simp add: Cons.IH[OF dist] cong: option.case_cong)
  qed
qed

lemma execute_pages_insert_on_conflict:
  "0 < n \<Longrightarrow> distinct (map row_id xs) \<Longrightarrow>
   snd (execute_pages insert_on_conflict tbl (pages n xs)) = Inr (foldl upsert_row tbl xs)"
proof (induction n xs arbitrary: tbl rule: pages.induct)
  case (1 n xs)
  show ?case
  proof (cases "xs = []")
    case True
    then show ?thesis by (simp add: pages.simps)
  next
    case False
    from "1.prems" have page: "distinct (map row_id (take n xs))"
      and rest: "distinct (map row_id (drop n xs))"
      by (simp_all add: take_map[symmetric] drop_map[symmetric] distinct_take distinct_drop)
    from False "1.prems" have unfold: "pages n xs = take n xs # pages n (drop n xs)"
      by (subst pages.simps) simp
    have first: "insert_on_conflict tbl (take n xs) = Inr (foldl upsert_row tbl (take n xs))"
      by (simp add: insert_on_conflict_def page)
    have "snd (execute_pages insert_on_conflict tbl (pages n xs))
            = snd (execute_pages insert_on_conflict (foldl upsert_row tbl (take n xs))
                (pages n (drop n xs)))"
      by (simp add: unfold first case_prod_beta)
    also have "\<dots> = Inr (foldl upsert_row (foldl upsert_row tbl (take n xs)) (drop n xs))"
      using False "1.prems" rest by (intro "1.IH") simp_all
    also have "foldl upsert_row (foldl upsert_row tbl (take n xs)) (drop n xs)
                 = foldl upsert_row tbl (take n xs @ drop n xs)"
      by (simp only: foldl_append)
    finally show ?thesis by simp
  qed
qed

lemma find_values_row:
  "distinct (map m_id methods) \<Longrightarrow> m \<in> set methods \<Longrightarrow>
   find (\<lambda>x. row_id x = m_id m) (map (values_row defaults current_now) methods)
     = Some (values_row defaults current_now m)"
proof (induction methods)
  case Nil
  then show ?case by simp
next
  case (Cons a methods)
  then show ?case
    by (cases "a = m") (auto simp: values_row_def)
qed

text \<open>
  C1. For a batch with pairwise distinct identities, \<open>upsert_methods\<close> succeeds and
  reconciles every tuple of the batch. When the table has no row with the tuple's
  identity, the new row has status \<open>new\<close> and vector status \<open>pending\<close>. When it has one and
  the content hash differs, the row gets status \<open>updated\<close> and vector status \<open>pending\<close>,
  whatever they were; when the hash is the same, both keep their values. In every case
  the row afterwards carries the tuple's code, documentation, dependency lists, content
  hash and line count, and \<open>last_seen_at\<close> is the time of the scan.
\<close>

theorem upsert_methods_reconciles:
  assumes "0 < page_size" and "distinct (map m_id methods)" and "m \<in> set methods"
  shows "\<exists>tbl' r'. upsert_methods page_size defaults current_now tbl methods = Inr tbl' \<and>
           lookup tbl' (m_id m) = Some r' \<and>
           last_seen_at r' = current_now \<and>
           method_code r' = m_method_code m \<and> javadoc_raw r' = m_javadoc_raw m \<and>
           internal_deps r' = m_internal_deps m \<and> external_libs r' = m_external_libs m \<and>
           content_hash r' = m_content_hash m \<and> line_count r' = m_line_count m \<and>
           (case lookup tbl (m_id m) of
              None \<Rightarrow> status r' = ''new'' \<and> vector_status r' = ''pending''
            | Some r \<Rightarrow>
                (if content_hash r \<noteq> m_content_hash m
                 then status r' = ''updated'' \<and> vector_status r' = ''pending''
                 else status r' = status r \<and> vector_status r' = vector_status r))"
proof -
  let ?data = "map (values_row defaults current_now) methods"
  let ?x = "values_row defaults current_now m"
  have "row_id \<circ> values_row defaults current_now = m_id"
    by (rule ext) (simp add: values_row_def)
  with assms(2) have dist: "distinct (map row_id ?data)" by simp
  let ?tbl' = "foldl upsert_row tbl ?data"
  have run: "upsert_methods page_size defaults current_now tbl methods = Inr ?tbl'"
    using execute_pages_insert_on_conflict[OF assms(1) dist]
    by (simp add: upsert_methods_def execute_values_def Let_def)
  let ?r' = "case lookup tbl (m_id m) of None \<Rightarrow> ?x | Some r \<Rightarrow> on_conflict_update r ?x"
  have found: "lookup ?tbl' (m_id m) = Some ?r'"
    by (simp add: lookup_foldl_upsert_row[OF dist] find_values_row[OF assms(2,3)])
  have fields: "last_seen_at ?r' = current_now \<and>
           method_code ?r' = m_method_code m \<and> javadoc_raw ?r' = m_javadoc_raw m \<and>
           internal_deps ?r' = m_internal_deps m \<and> external_libs ?r' = m_external_libs m \<and>
           content_hash ?r' = m_content_hash m \<and> line_count ?r' = m_line_count m \<and>
           (case lookup tbl (m_id m) of
              None \<Rightarrow> status ?r' = ''new'' \<and> vector_status ?r' = ''pending''
            | Some r \<Rightarrow>
                (if content_hash r \<noteq> m_content_hash m
                 then status ?r' = ''updated'' \<and> vector_status ?r' = ''pending''
                 else status ?r' = status r \<and> vector_status ?r' = vector_status r))"
    by (cases "lookup tbl (m_id m)") (simp_all add: values_row_def on_conflict_update_def)
  from run found fields show ?thesis
    by (intro exI[of _ ?tbl'] exI[of _ ?r']) (intro conjI; simp)
qed

theorem upsert_methods_reconciles_witness:
  "\<exists>tbl' r'. upsert_methods 100 example_row 2 [example_row] [example_method_tuple] = Inr tbl' \<and>
      lookup tbl' ''a'' = Some r' \<and>
      status example_row = ''ai_processed'' \<and> vector_status example_row = ''synced'' \<and>
      status r' = ''updated'' \<and> vector_status r' = ''pending'' \<and>
      last_seen_at r' = 2 \<and> content_hash r' = ''H2'' \<and> line_count r' = 3"
proof -
  have hyps: "(0::nat) < 100" "distinct (map m_id [example_method_tuple])"
    "example_method_tuple \<in> set [example_method_tuple]"
    by simp_all
  have before: "lookup [example_row] (m_id example_method_tuple) = Some example_row"
    by (simp add: lookup_def example_row_def example_method_tuple_def)
  have changed: "content_hash example_row \<noteq> m_content_hash example_method_tuple"
    by (simp add: example_row_def example_method_tuple_def)
  from upsert_methods_reconciles[OF hyps, of example_row 2 "[example_row]"]
  obtain tbl' r' where
    "upsert_methods 100 example_row 2 [example_row] [example_method_tuple] = Inr tbl'"
    "lookup tbl' (m_id example_method_tuple) = Some r'"
    "last_seen_at r' = 2" "content_hash r' = m_content_hash example_method_tuple"
    "line_count r' = m_line_count example_method_tuple"
    "status r' = ''updated''" "vector_status r' = ''pending''"
    using before changed by auto
  then show ?thesis
    by (intro exI[of _ tbl'] exI[of _ r'])
       (simp add: example_row_def example_method_tuple_def)
qed


section \<open>Vector synchronisation\<close>























section \<open>Rows to vectorise\<close>

lemma jsonb_contains_flag:
  "jsonb_contains j (JObject [(k, JBool True)])
     = (case j of JObject kvs \<Rightarrow> map_of kvs k = Some (JBool True) | _ \<Rightarrow> False)"
  by (cases j) (auto simp: jsonb_contains_def split: option.splits)

lemma to_vectorize_unflagged:
  "to_vectorize r \<Longrightarrow>
   vector_status r = ''pending'' \<and> status r = ''ai_processed'' \<and> \<not> flagged_boilerplate r"
  by (auto simp: to_vectorize_def flagged_boilerplate_def jsonb_contains_flag
           split: option.splits jsonb.splits)

text \<open>
  C8. When \<open>get_methods_to_vectorize\<close> returns, it returns at most \<open>limit\<close> tuples, and
  each is the projection of a row of the table whose vector status is \<open>pending\<close>, whose
  status is \<open>ai_processed\<close> and whose enrichment payload does not carry the boilerplate
  flag. So no row that carries the flag is returned.
\<close>

theorem vectorize_query_excludes_boilerplate:
  assumes "get_methods_to_vectorize tbl limit = Inr res"
  shows "int (length res) \<le> limit \<and>
         (\<forall>t\<in>set res. \<exists>r\<in>set tbl. t = vectorize_columns r \<and>
              vector_status r = ''pending'' \<and> status r = ''ai_processed'' \<and>
              \<not> flagged_boilerplate r)"
proof -
  from assms have limit: "0 \<le> limit"
    and res: "res = map vectorize_columns (take (nat limit) (filter to_vectorize tbl))"
    by (auto simp: get_methods_to_vectorize_def split: if_splits)
  from limit have "int (length res) \<le> limit"
    by (simp add: res)
  moreover have "\<exists>r\<in>set tbl. t = vectorize_columns r \<and>
              vector_status r = ''pending'' \<and> status r = ''ai_processed'' \<and>
              \<not> flagged_boilerplate r" if "t \<in> set res" for t
  proof -
    from that res obtain r where "r \<in> set (take (nat limit) (filter to_vectorize tbl))"
      and t: "t = vectorize_columns r"
      by auto
    then have "r \<in> set (filter to_vectorize tbl)"
      by (auto dest: in_set_takeD)
    then have "r \<in> set tbl" and "to_vectorize r" by simp_all
    with t to_vectorize_unflagged[of r] show ?thesis by blast
  qed
  ultimately show ?thesis by blast
qed

theorem vectorize_query_excludes_boilerplate_witness:
  "\<exists>res. get_methods_to_vectorize example_table 10 = Inr res \<and>
      map fst res = [''a''] \<and>
      flagged_boilerplate (example_table ! 1) \<and>
      vector_status (example_table ! 1) = ''pending'' \<and>
      status (example_table ! 1) = ''ai_processed'' \<and>
      vectorize_columns (example_table ! 1) \<notin> set res"
proof -
  have run: "\<exists>res. get_methods_to_vectorize example_table 10 = Inr res \<and> map fst res = [''a'']"
    by (simp add: get_methods_to_vectorize_def example_table_def example_row_def
          to_vectorize_def jsonb_contains_def vectorize_columns_def)
  then obtain res where res: "get_methods_to_vectorize example_table 10 = Inr res"
    "map fst res = [''a'']"
    by (elim exE conjE)
  have flagged: "flagged_boilerplate (example_table ! 1)"
    "vector_status (example_table ! 1) = ''pending''"
    "status (example_table ! 1) = ''ai_processed''"
    by (simp_all add: example_table_def example_row_def flagged_boilerplate_def)
  have ids: "map row_id example_table = [''a'', ''b'', ''c'', ''d'']"
    by (simp add: example_table_def example_row_def)
  have "vectorize_columns (example_table ! 1) \<notin> set res"
  proof
    assume "vectorize_columns (example_table ! 1) \<in> set res"
    with vectorize_query_excludes_boilerplate[OF res(1)]
    obtain r where r: "r \<in> set example_table"
      "vectorize_columns (example_table ! 1) = vectorize_columns r"
      "\<not> flagged_boilerplate r"
      by blast
    from r(2) have "row_id r = row_id (example_table ! 1)"
      by (simp add: vectorize_columns_def)
    with r(1) have "r = example_table ! 1"
      by (auto simp: example_table_def example_row_def)
    with r(3) flagged(1) show False by simp
  qed
  with res flagged show ?thesis
    by (intro exI[of _ res]) simp
qed

section \<open>Stale rows\<close>

lemma like_match_percent: "like_match ''%'' s"
  by (induction s) simp_all

lemma like_match_plain_prefix:
  "\<forall>c\<in>set p. c \<noteq> CHR ''%'' \<and> c \<noteq> CHR ''_'' \<and> c \<noteq> CHR 0x5C \<Longrightarrow>
   like_match (p @ ''%'') s = startswith s p"
proof (induction p arbitrary: s)
  case Nil
  show ?case
    using like_match_percent[of s] by (simp add: startswith_def del: like_match.simps)
next
  case (Cons c p)
  then have plain: "c \<noteq> CHR ''%''" "c \<noteq> CHR ''_''" "c \<noteq> CHR 0x5C"
    and ih: "\<And>s. like_match (p @ ''%'') s = startswith s p"
    by simp_all
  show ?case
  proof (cases s)
    case Nil
    with plain show ?thesis by (simp add: startswith_def)
  next
    case (Cons d ds)
    with plain ih[of ds] show ?thesis by (auto simp: startswith_def)
  qed
qed

lemma get_stale_methods_plain_prefix:
  "\<forall>c\<in>set repo_path_prefix. c \<noteq> CHR ''%'' \<and> c \<noteq> CHR ''_'' \<and> c \<noteq> CHR 0x5C \<Longrightarrow>
   get_stale_methods tbl repo_path_prefix scan_start_time =
     map row_id (filter (\<lambda>r. startswith (source_path r) repo_path_prefix
                               \<and> last_seen_at r < scan_start_time) tbl)"
  by (simp add: get_stale_methods_def like_match_plain_prefix)

text \<open>
  C5. The query is meant to return the rows under a path prefix that were last seen before
  the scan began. For a prefix without \<open>%\<close>, \<open>_\<close> and backslash it does (the lemma
  above). It passes the prefix to \<open>LIKE\<close> unescaped, though: with the prefix \<open>app_old\<close>
  it returns a row whose path \<open>appXold/Job.java\<close> is not under the prefix, and with a
  prefix that holds a backslash it misses a row whose path does begin with the prefix.
\<close>

theorem get_stale_methods_reads_wildcards:
  "get_stale_methods [example_row\<lparr> source_path := ''appXold/Job.java'' \<rparr>] ''app_old'' 2 = [''a''] \<and>
   \<not> startswith ''appXold/Job.java'' ''app_old'' \<and>
   get_stale_methods [example_row\<lparr> source_path := ''app'' @ [CHR 0x5C] @ ''Job.java'' \<rparr>]
      (''app'' @ [CHR 0x5C] @ ''Job'') 2 = [] \<and>
   startswith (''app'' @ [CHR 0x5C] @ ''Job.java'') (''app'' @ [CHR 0x5C] @ ''Job'') \<and>
   last_seen_at example_row < 2"
  by (simp add: get_stale_methods_def example_row_def startswith_def)

end
